theory Spec2Isabelle
  imports Main
begin

section \<open>Values and errors of the run-time\<close>

text \<open>
  The credential record of \<^verbatim>\<open>types.ts\<close> (interface \<^verbatim>\<open>AuthToken\<close>). At run time a
  field of a JavaScript object is a string or is absent (\<^verbatim>\<open>undefined\<close>); the token file is
  parsed without any check of its shape, and \<^verbatim>\<open>clearToken\<close> writes the empty object, so
  also the fields the interface declares as required are optional here.
\<close>

record AuthToken =
  token :: "string option"
  refreshToken :: "string option"
  phoneNumber :: "string option"
  expiresAt :: "string option"
  clientCode :: "string option"
  panNumber :: "string option"

definition emptyObject :: AuthToken where
  "emptyObject = \<lparr>token = None, refreshToken = None, phoneNumber = None,
     expiresAt = None, clientCode = None, panNumber = None\<rparr>"

text \<open>JavaScript truthiness of an optional string, and the operator \<^verbatim>\<open>a || b\<close> on them.\<close>

definition truthy :: "string option \<Rightarrow> bool" where
  "truthy v = (case v of None \<Rightarrow> False | Some s \<Rightarrow> s \<noteq> [])"

definition js_or :: "string option \<Rightarrow> string option \<Rightarrow> string option" where
  "js_or a b = (if truthy a then a else b)"

text \<open>
  A thrown value: an \<^verbatim>\<open>Error\<close> with its message, or an error of the HTTP library with the
  status of the response (absent when no response arrived: network failure, timeout) and
  its message.
\<close>

datatype js_error =
    Error string
  | AxiosError "nat option" string

fun message :: "js_error \<Rightarrow> string" where
  "message (Error m) = m"
| "message (AxiosError st m) = m"

text \<open>\<^verbatim>\<open>axios.isAxiosError(error) && error.response?.status === n\<close>\<close>

fun axiosStatusIs :: "js_error \<Rightarrow> nat \<Rightarrow> bool" where
  "axiosStatusIs (AxiosError st m) n = (st = Some n)"
| "axiosStatusIs (Error m) n = False"

section \<open>TokenManager: the credential store\<close>

text \<open>
  The state of one \<^verbatim>\<open>TokenManager\<close>: the in-memory copy, the content of the token file
  (\<open>None\<close>: the file is missing or does not parse; the serialisation to JSON and back is
  taken to return the record written), and whether the file system accepts a write.
  \<open>saveToken\<close> throws when the write fails (its message, which goes on with the cause, is
  cut after the fixed part); \<open>clearToken\<close> ignores a failed write.
\<close>

record TokenManager =
  cachedToken :: "AuthToken option"
  tokenFile :: "AuthToken option"
  writable :: bool

definition saveToken :: "TokenManager \<Rightarrow> AuthToken \<Rightarrow> js_error + TokenManager" where
  "saveToken tm t =
     (if writable tm then Inr (tm\<lparr>tokenFile := Some t, cachedToken := Some t\<rparr>)
      else Inl (Error ''Failed to save token''))"

definition loadToken :: "TokenManager \<Rightarrow> AuthToken option \<times> TokenManager" where
  "loadToken tm =
     (case cachedToken tm of
        Some t \<Rightarrow> (Some t, tm)
      | None \<Rightarrow>
          (case tokenFile tm of
             Some t \<Rightarrow> (Some t, tm\<lparr>cachedToken := Some t\<rparr>)
           | None \<Rightarrow> (None, tm)))"

definition clearToken :: "TokenManager \<Rightarrow> TokenManager" where
  "clearToken tm =
     (let tm1 = tm\<lparr>cachedToken := None\<rparr>
      in if writable tm1 then tm1\<lparr>tokenFile := Some emptyObject\<rparr> else tm1)"

definition NOT_AUTHENTICATED :: string where
  "NOT_AUTHENTICATED =
     ''Not authenticated. Please login first using fabits_request_otp and fabits_verify_otp''"

definition requireToken :: "TokenManager \<Rightarrow> (js_error + string) \<times> TokenManager" where
  "requireToken tm =
     (case loadToken tm of
        (None, tm1) \<Rightarrow> (Inl (Error NOT_AUTHENTICATED), tm1)
      | (Some tokenData, tm1) \<Rightarrow>
          (case token tokenData of
             None \<Rightarrow> (Inl (Error NOT_AUTHENTICATED), tm1)
           | Some tok \<Rightarrow>
               if tok = [] then (Inl (Error NOT_AUTHENTICATED), tm1) else (Inr tok, tm1)))"

section \<open>Renewal: the body of silentRefreshToken\<close>

text \<open>The data of a reply of the renewal endpoint (\<^verbatim>\<open>LoginResponse\<close>), as far as it is read.\<close>

record LoginResponse =
  access_token :: "string option"
  refresh_token :: "string option"

text \<open>
  What \<^verbatim>\<open>axios.post\<close> to the renewal endpoint gives: a reply of the 2xx class with its
  data (\<open>None\<close>: no data object, so that reading a property of it throws), or a thrown
  error.
\<close>

datatype post_result =
    Resolved "LoginResponse option"
  | Rejected js_error

text \<open>
  The fields read from the payload that \<^verbatim>\<open>decodeJWT\<close> returns. The decoding itself
  (base64 and JSON of the library) is a parameter: it returns the empty object on any failure
  and never throws; \<open>None\<close> stands for a payload that is the JSON value \<^verbatim>\<open>null\<close>, of
  which no property can be read.
\<close>

record JwtPayload =
  jwt_phoneNumber :: "string option"
  jwt_uid :: "string option"
  jwt_panNumber :: "string option"

type_synonym decoder = "string \<Rightarrow> JwtPayload option"

definition TYPE_ERROR :: js_error where
  "TYPE_ERROR = Error ''Cannot read properties of undefined''"

text \<open>The record \<^verbatim>\<open>updatedAuthToken\<close> that a good reply leads to.\<close>

definition updatedAuthToken :: "string \<Rightarrow> LoginResponse \<Rightarrow> JwtPayload \<Rightarrow> AuthToken \<Rightarrow> AuthToken" where
  "updatedAuthToken tok d decodedToken tokenData =
     \<lparr>token = Some tok,
      refreshToken = js_or (refresh_token d) (refreshToken tokenData),
      phoneNumber = js_or (jwt_phoneNumber decodedToken) (phoneNumber tokenData),
      expiresAt = None,
      clientCode = js_or (jwt_uid decodedToken) (clientCode tokenData),
      panNumber = js_or (jwt_panNumber decodedToken) (panNumber tokenData)\<rparr>"

text \<open>The \<^verbatim>\<open>try\<close> block of one attempt: post, check, decode, save, return the new token.\<close>

definition attemptTry ::
  "decoder \<Rightarrow> AuthToken \<Rightarrow> TokenManager \<Rightarrow> post_result \<Rightarrow> (js_error + string) \<times> TokenManager" where
  "attemptTry decodeJWT tokenData tm r =
     (case r of
        Rejected e \<Rightarrow> (Inl e, tm)
      | Resolved None \<Rightarrow> (Inl TYPE_ERROR, tm)
      | Resolved (Some d) \<Rightarrow>
          (case access_token d of
             None \<Rightarrow> (Inl (Error ''REFRESH_FAILED''), tm)
           | Some tok \<Rightarrow>
               if tok = [] then (Inl (Error ''REFRESH_FAILED''), tm)
               else
                 (case decodeJWT tok of
                    None \<Rightarrow> (Inl TYPE_ERROR, tm)
                  | Some decodedToken \<Rightarrow>
                      (case saveToken tm (updatedAuthToken tok d decodedToken tokenData) of
                         Inl e \<Rightarrow> (Inl e, tm)
                       | Inr tm1 \<Rightarrow> (Inr tok, tm1)))))"

text \<open>
  One turn of the loop: the \<^verbatim>\<open>try\<close> block and its \<^verbatim>\<open>catch\<close>. \<open>Done\<close> returns from the
  function, \<open>Abort\<close> throws out of the loop, \<open>Continue\<close> records \<^verbatim>\<open>lastError\<close> and goes on.
\<close>

datatype attempt_outcome = Done string | Abort js_error | Continue js_error

definition refreshAttempt ::
  "decoder \<Rightarrow> AuthToken \<Rightarrow> TokenManager \<Rightarrow> post_result \<Rightarrow> attempt_outcome \<times> TokenManager" where
  "refreshAttempt decodeJWT tokenData tm r =
     (case attemptTry decodeJWT tokenData tm r of
        (Inr tok, tm1) \<Rightarrow> (Done tok, tm1)
      | (Inl error, tm1) \<Rightarrow>
          if axiosStatusIs error 401 \<or> axiosStatusIs error 403
          then (Abort (Error ''REFRESH_TOKEN_EXPIRED''), tm1)
          else if axiosStatusIs error 400 then (Abort (Error ''REFRESH_FAILED''), tm1)
          else (Continue error, tm1))"

definition maxRetries :: nat where
  "maxRetries = 3"

text \<open>
  The loop \<^verbatim>\<open>for (attempt = 1; attempt <= maxRetries; attempt++)\<close> and the
  \<^verbatim>\<open>throw lastError || new Error('REFRESH_FAILED')\<close> after it. \<open>remote k\<close> is what the
  \<open>k\<close>-th post of this run meets; the last component counts the posts made (every turn
  of the loop posts once; the pause before a later attempt has no other effect).
\<close>

function refreshLoop ::
  "decoder \<Rightarrow> (nat \<Rightarrow> post_result) \<Rightarrow> AuthToken \<Rightarrow> nat \<Rightarrow> js_error option \<Rightarrow> TokenManager \<Rightarrow> nat
     \<Rightarrow> (js_error + string) \<times> TokenManager \<times> nat" where
  "refreshLoop decodeJWT remote tokenData attempt lastError tm posts =
     (if attempt \<le> maxRetries then
        (case refreshAttempt decodeJWT tokenData tm (remote attempt) of
           (Done tok, tm1) \<Rightarrow> (Inr tok, tm1, posts + 1)
         | (Abort e, tm1) \<Rightarrow> (Inl e, tm1, posts + 1)
         | (Continue e, tm1) \<Rightarrow>
             refreshLoop decodeJWT remote tokenData (attempt + 1) (Some e) tm1 (posts + 1))
      else
        (Inl (case lastError of Some e \<Rightarrow> e | None \<Rightarrow> Error ''REFRESH_FAILED''), tm, posts))"
  by pat_completeness auto
termination
  by (relation "measure (\<lambda>(d, r, td, attempt, le, tm, posts). maxRetries + 1 - attempt)") auto

declare refreshLoop.simps [simp del]

text \<open>
  The asynchronous function that \<^verbatim>\<open>silentRefreshToken\<close> starts when no renewal is in
  flight, run from its start to its end: load the record, give up without a renewal
  credential, else loop.
\<close>

definition silentRefreshToken_body ::
  "decoder \<Rightarrow> (nat \<Rightarrow> post_result) \<Rightarrow> TokenManager \<Rightarrow> (js_error + string) \<times> TokenManager \<times> nat" where
  "silentRefreshToken_body decodeJWT remote tm =
     (case loadToken tm of
        (None, tm1) \<Rightarrow> (Inl (Error ''REFRESH_TOKEN_MISSING''), tm1, 0)
      | (Some tokenData, tm1) \<Rightarrow>
          if truthy (refreshToken tokenData)
          then refreshLoop decodeJWT remote tokenData 1 None tm1 0
          else (Inl (Error ''REFRESH_TOKEN_MISSING''), tm1, 0))"

text \<open>The turn goes on to the next attempt.\<close>

fun continues :: "attempt_outcome \<Rightarrow> bool" where
  "continues (Continue e) = True"
| "continues (Done tok) = False"
| "continues (Abort e) = False"

text \<open>
  What the \<^verbatim>\<open>throw\<close> after the loop throws, when the loop was entered at \<open>attempt\<close> with
  \<open>lastError\<close> and every turn went on: the error of the last turn, or the one held before.
\<close>

definition finalError ::
  "decoder \<Rightarrow> (nat \<Rightarrow> post_result) \<Rightarrow> AuthToken \<Rightarrow> TokenManager \<Rightarrow> nat \<Rightarrow> js_error option \<Rightarrow> js_error" where
  "finalError decodeJWT remote tokenData tm attempt lastError =
     (if attempt \<le> maxRetries then
        (case fst (refreshAttempt decodeJWT tokenData tm (remote maxRetries)) of
           Continue e \<Rightarrow> e
         | Done tok \<Rightarrow> Error ''REFRESH_FAILED''
         | Abort e \<Rightarrow> Error ''REFRESH_FAILED'')
      else (case lastError of Some e \<Rightarrow> e | None \<Rightarrow> Error ''REFRESH_FAILED''))"

text \<open>
  A transient failure of the remote renewal call: no response (network failure, timeout),
  or a response with a status other than 400, 401 and 403.
\<close>

fun transient :: "post_result \<Rightarrow> bool" where
  "transient (Rejected (AxiosError st m)) = (st \<noteq> Some 400 \<and> st \<noteq> Some 401 \<and> st \<noteq> Some 403)"
| "transient (Rejected (Error m)) = False"
| "transient (Resolved d) = False"

text \<open>The remote renewal call answered with status 401 or 403.\<close>

fun authRejection :: "post_result \<Rightarrow> bool" where
  "authRejection (Rejected e) = (axiosStatusIs e 401 \<or> axiosStatusIs e 403)"
| "authRejection (Resolved d) = False"

section \<open>The request executor: createAuthenticatedClient\<close>

text \<open>What one send of a request gives: a reply of the 2xx class, or a thrown error.\<close>

datatype 'a http_result = HttpOk 'a | HttpError js_error

text \<open>
  The messages of the two errors of the interceptor. A string is a list of bytes here: the
  pictograph that opens both messages is its four bytes in UTF-8.
\<close>

definition SESSION_EXPIRED :: string where
  "SESSION_EXPIRED =
     CHR 0xF0 # CHR 0x9F # CHR 0x94 # CHR 0x90 #
     '' Session Expired\<newline>\<newline>Your refresh token has expired. Please login again:\<newline>1. Use fabits_request_otp with your phone number\<newline>2. Use fabits_verify_otp with the OTP you receive''"

definition ACCESS_TOKEN_EXPIRED :: string where
  "ACCESS_TOKEN_EXPIRED =
     CHR 0xF0 # CHR 0x9F # CHR 0x94 # CHR 0x90 #
     '' Access Token Expired\<newline>\<newline>Your access token has expired. Try:\<newline>1. Use fabits_refresh_token to refresh your session\<newline>2. If that fails, login again with fabits_request_otp''"

text \<open>
  One logical request through the client, with the response interceptor. \<open>server k b\<close> is
  what the \<open>k\<close>-th send of the request meets when it carries the bearer credential
  \<open>b\<close>; \<open>retry\<close> is the mark \<^verbatim>\<open>_retry\<close> on the request. The renewal is the one this
  request drives (no other request is pending). The result comes with the store, the
  number of sends and the number of renewal posts.
\<close>

function client ::
  "decoder \<Rightarrow> (nat \<Rightarrow> post_result) \<Rightarrow> (nat \<Rightarrow> string \<Rightarrow> 'a http_result) \<Rightarrow>
     bool \<Rightarrow> nat \<Rightarrow> nat \<Rightarrow> string \<Rightarrow> TokenManager \<Rightarrow> (js_error + 'a) \<times> TokenManager \<times> nat \<times> nat" where
  "client decodeJWT remote server retry sends posts bearer tm =
     (case server (sends + 1) bearer of
        HttpOk v \<Rightarrow> (Inr v, tm, sends + 1, posts)
      | HttpError error \<Rightarrow>
          if (axiosStatusIs error 401 \<or> axiosStatusIs error 403) \<and> \<not> retry then
            (case silentRefreshToken_body decodeJWT remote tm of
               (Inr newToken, tm1, n) \<Rightarrow>
                 client decodeJWT remote server True (sends + 1) (posts + n) newToken tm1
             | (Inl refreshError, tm1, n) \<Rightarrow>
                 if message refreshError = ''REFRESH_TOKEN_EXPIRED''
                 then (Inl (Error SESSION_EXPIRED), clearToken tm1, sends + 1, posts + n)
                 else (Inl (Error ACCESS_TOKEN_EXPIRED), tm1, sends + 1, posts + n))
          else (Inl error, tm, sends + 1, posts))"
  by pat_completeness auto
termination
  by (relation "measure (\<lambda>(d, r, sv, retry, sends, posts, b, tm). if retry then 0 else 1)") auto

declare client.simps [simp del]

text \<open>\<^verbatim>\<open>createAuthenticatedClient\<close> followed by one request on the client it returns.\<close>

definition createAuthenticatedClient ::
  "decoder \<Rightarrow> (nat \<Rightarrow> post_result) \<Rightarrow> (nat \<Rightarrow> string \<Rightarrow> 'a http_result) \<Rightarrow> TokenManager
     \<Rightarrow> (js_error + 'a) \<times> TokenManager \<times> nat \<times> nat" where
  "createAuthenticatedClient decodeJWT remote server tm =
     (case requireToken tm of
        (Inl e, tm1) \<Rightarrow> (Inl e, tm1, 0, 0)
      | (Inr tok, tm1) \<Rightarrow> client decodeJWT remote server False 0 0 tok tm1)"

text \<open>What a send hands to its caller when the interceptor lets it pass.\<close>

fun passed :: "'a http_result \<Rightarrow> js_error + 'a" where
  "passed (HttpOk v) = Inr v"
| "passed (HttpError e) = Inl e"

text \<open>The send was answered with status 401 or 403.\<close>

fun authError :: "'a http_result \<Rightarrow> bool" where
  "authError (HttpError e) = (axiosStatusIs e 401 \<or> axiosStatusIs e 403)"
| "authError (HttpOk v) = False"

section \<open>Concurrent callers of silentRefreshToken\<close>

text \<open>
  The run-time is one thread with suspension at every \<^verbatim>\<open>await\<close>. A driver is a started
  instance of the asynchronous function inside \<^verbatim>\<open>silentRefreshToken\<close>, at one of its
  suspension points: loading the record, pausing before a later attempt, or with its post
  in transit. Attempt number, \<^verbatim>\<open>lastError\<close> and \<^verbatim>\<open>tokenData\<close> are its local variables.
\<close>

datatype phase =
    Loading
  | Sleeping nat "js_error option" AuthToken
  | Posting nat "js_error option" AuthToken

text \<open>
  The module. \<^verbatim>\<open>refreshTokenPromise\<close> is one variable of the module, whatever
  \<^verbatim>\<open>TokenManager\<close> a caller passes, and a process can hold several managers (the HTTP
  server makes one per tool call): the managers are numbered and each has its store. A
  promise is named by its number. A driver is listed with its promise and with the manager
  of the call that started it, which is the manager it loads from and saves to. Then come
  the callers awaiting a promise, the outcomes handed to callers so far, and two counters:
  posts sent to the renewal endpoint and promises created.
\<close>

record runtime =
  managers :: "nat \<Rightarrow> TokenManager"
  refreshTokenPromise :: "nat option"
  drivers :: "(nat \<times> nat \<times> phase) list"
  waiters :: "(nat \<times> nat) list"
  delivered :: "(nat \<times> nat \<times> (js_error + string)) list"
  posts_made :: nat
  promises_made :: nat

text \<open>
  \<open>Renew c m\<close>: caller \<open>c\<close> calls \<^verbatim>\<open>silentRefreshToken\<close> with manager \<open>m\<close>. \<open>Tick p\<close>:
  the load or the pause that the driver of promise \<open>p\<close> awaits is over. \<open>Reply p r\<close>: the
  post of that driver comes back with \<open>r\<close>.
\<close>

datatype event =
    Renew nat nat
  | Tick nat
  | Reply nat post_result

definition setDriver :: "nat \<Rightarrow> phase \<Rightarrow> runtime \<Rightarrow> runtime" where
  "setDriver p ph rt =
     rt\<lparr>drivers := map (\<lambda>d. if fst d = p then (p, fst (snd d), ph) else d) (drivers rt)\<rparr>"

definition setManager :: "nat \<Rightarrow> TokenManager \<Rightarrow> runtime \<Rightarrow> runtime" where
  "setManager m tm rt = rt\<lparr>managers := (managers rt)(m := tm)\<rparr>"

text \<open>
  The end of the driver of promise \<open>p\<close>: the \<^verbatim>\<open>finally\<close> block resets the variable, then
  the promise settles and every caller awaiting it receives the outcome.
\<close>

definition settle :: "nat \<Rightarrow> js_error + string \<Rightarrow> runtime \<Rightarrow> runtime" where
  "settle p outcome rt =
     rt\<lparr>refreshTokenPromise := None,
        drivers := filter (\<lambda>d. fst d \<noteq> p) (drivers rt),
        delivered := delivered rt @ map (\<lambda>w. (fst w, p, outcome)) (filter (\<lambda>w. snd w = p) (waiters rt)),
        waiters := filter (\<lambda>w. snd w \<noteq> p) (waiters rt)\<rparr>"

definition post :: "nat \<Rightarrow> nat \<Rightarrow> js_error option \<Rightarrow> AuthToken \<Rightarrow> runtime \<Rightarrow> runtime" where
  "post p attempt lastError tokenData rt =
     (setDriver p (Posting attempt lastError tokenData) rt)\<lparr>posts_made := posts_made rt + 1\<rparr>"

text \<open>The head of the loop, and the \<^verbatim>\<open>throw\<close> after it.\<close>

definition loopHead :: "nat \<Rightarrow> nat \<Rightarrow> js_error option \<Rightarrow> AuthToken \<Rightarrow> runtime \<Rightarrow> runtime" where
  "loopHead p attempt lastError tokenData rt =
     (if attempt \<le> maxRetries then
        (if attempt > 1 then setDriver p (Sleeping attempt lastError tokenData) rt
         else post p attempt lastError tokenData rt)
      else settle p (Inl (case lastError of Some e \<Rightarrow> e | None \<Rightarrow> Error ''REFRESH_FAILED'')) rt)"

text \<open>
  One step of the module. The save that follows a good reply is taken in the step of the
  reply. An event for a driver that does not await it changes nothing.
\<close>

definition step :: "decoder \<Rightarrow> runtime \<Rightarrow> event \<Rightarrow> runtime" where
  "step decodeJWT rt ev =
     (case ev of
        Renew c m \<Rightarrow>
          (case refreshTokenPromise rt of
             Some p \<Rightarrow> rt\<lparr>waiters := waiters rt @ [(c, p)]\<rparr>
           | None \<Rightarrow>
               rt\<lparr>refreshTokenPromise := Some (promises_made rt),
                  drivers := drivers rt @ [(promises_made rt, m, Loading)],
                  waiters := waiters rt @ [(c, promises_made rt)],
                  promises_made := promises_made rt + 1\<rparr>)
      | Tick p \<Rightarrow>
          (case map_of (drivers rt) p of
             Some (m, Loading) \<Rightarrow>
               (case loadToken (managers rt m) of
                  (None, tm1) \<Rightarrow> settle p (Inl (Error ''REFRESH_TOKEN_MISSING'')) (setManager m tm1 rt)
                | (Some tokenData, tm1) \<Rightarrow>
                    if truthy (refreshToken tokenData)
                    then loopHead p 1 None tokenData (setManager m tm1 rt)
                    else settle p (Inl (Error ''REFRESH_TOKEN_MISSING'')) (setManager m tm1 rt))
           | Some (m, Sleeping attempt lastError tokenData) \<Rightarrow> post p attempt lastError tokenData rt
           | Some (m, Posting attempt lastError tokenData) \<Rightarrow> rt
           | None \<Rightarrow> rt)
      | Reply p r \<Rightarrow>
          (case map_of (drivers rt) p of
             Some (m, Posting attempt lastError tokenData) \<Rightarrow>
               (case refreshAttempt decodeJWT tokenData (managers rt m) r of
                  (Done tok, tm1) \<Rightarrow> settle p (Inr tok) (setManager m tm1 rt)
                | (Abort e, tm1) \<Rightarrow> settle p (Inl e) (setManager m tm1 rt)
                | (Continue e, tm1) \<Rightarrow> loopHead p (attempt + 1) (Some e) tokenData (setManager m tm1 rt))
           | Some (m, Sleeping attempt lastError tokenData) \<Rightarrow> rt
           | Some (m, Loading) \<Rightarrow> rt
           | None \<Rightarrow> rt))"

definition run :: "decoder \<Rightarrow> runtime \<Rightarrow> event list \<Rightarrow> runtime" where
  "run decodeJWT rt evs = foldl (step decodeJWT) rt evs"

text \<open>The module when it is loaded: no promise, no driver, nobody waiting.\<close>

definition start :: "(nat \<Rightarrow> TokenManager) \<Rightarrow> runtime" where
  "start tms = \<lparr>managers = tms, refreshTokenPromise = None, drivers = [], waiters = [],
     delivered = [], posts_made = 0, promises_made = 0\<rparr>"

fun callers :: "event list \<Rightarrow> nat list" where
  "callers [] = []"
| "callers (Renew c m # evs) = c # callers evs"
| "callers (Tick p # evs) = callers evs"
| "callers (Reply p r # evs) = callers evs"

text \<open>
  The replies that the driver of promise \<open>p\<close> takes up from a list of events:
  \<open>awaiting\<close> says whether its post is in transit. The end of a load or pause sends the
  post; the next reply to \<open>p\<close> is taken, and a reply with no post in transit is not.
\<close>

fun answers :: "nat \<Rightarrow> bool \<Rightarrow> event list \<Rightarrow> post_result list" where
  "answers p awaiting [] = []"
| "answers p awaiting (Renew c m # evs) = answers p awaiting evs"
| "answers p awaiting (Tick q # evs) = answers p (awaiting \<or> q = p) evs"
| "answers p awaiting (Reply q r # evs) =
     (if awaiting \<and> q = p then r # answers p False evs else answers p awaiting evs)"

text \<open>
  A list of replies as a renewal endpoint: the \<open>k\<close>-th post meets the \<open>k\<close>-th reply (a
  post beyond the list is not answered).
\<close>

definition remoteOf :: "post_result list \<Rightarrow> nat \<Rightarrow> post_result" where
  "remoteOf rs k =
     (if 1 \<le> k \<and> k \<le> length rs then rs ! (k - 1) else Rejected (AxiosError None ''Network Error''))"

text \<open>What the callers receive when the turn of a reply is the last of the run.\<close>

fun ended :: "attempt_outcome \<Rightarrow> js_error + string" where
  "ended (Done tok) = Inr tok"
| "ended (Abort e) = Inl e"
| "ended (Continue e) = Inl e"

text \<open>
  For the proofs. The posts a driver has sent and the replies it has taken when it stands
  at a phase, the attempt numbers a phase can carry, whether a post is in transit, and
  what is left of the run from a phase on.
\<close>

fun postsOf :: "phase \<Rightarrow> nat" where
  "postsOf Loading = 0"
| "postsOf (Sleeping attempt lastError tokenData) = attempt - 1"
| "postsOf (Posting attempt lastError tokenData) = attempt"

fun taken :: "phase \<Rightarrow> nat" where
  "taken Loading = 0"
| "taken (Sleeping attempt lastError tokenData) = attempt - 1"
| "taken (Posting attempt lastError tokenData) = attempt - 1"

fun phaseOk :: "phase \<Rightarrow> bool" where
  "phaseOk Loading = True"
| "phaseOk (Sleeping attempt lastError tokenData) = (2 \<le> attempt \<and> attempt \<le> maxRetries)"
| "phaseOk (Posting attempt lastError tokenData) = (1 \<le> attempt \<and> attempt \<le> maxRetries)"

fun awaitsReply :: "phase \<Rightarrow> bool" where
  "awaitsReply Loading = False"
| "awaitsReply (Sleeping attempt lastError tokenData) = False"
| "awaitsReply (Posting attempt lastError tokenData) = True"

fun rest_of_run ::
  "decoder \<Rightarrow> (nat \<Rightarrow> post_result) \<Rightarrow> phase \<Rightarrow> TokenManager \<Rightarrow> (js_error + string) \<times> TokenManager \<times> nat" where
  "rest_of_run d remote Loading tm = silentRefreshToken_body d remote tm"
| "rest_of_run d remote (Sleeping attempt lastError tokenData) tm =
     refreshLoop d remote tokenData attempt lastError tm (attempt - 1)"
| "rest_of_run d remote (Posting attempt lastError tokenData) tm =
     refreshLoop d remote tokenData attempt lastError tm (attempt - 1)"

text \<open>Whether the post of the driver of promise \<open>p\<close> is in transit after an event.\<close>

fun awaitingAfter :: "nat \<Rightarrow> bool \<Rightarrow> event \<Rightarrow> bool" where
  "awaitingAfter p awaiting (Renew c m) = awaiting"
| "awaitingAfter p awaiting (Tick q) = (awaiting \<or> q = p)"
| "awaitingAfter p awaiting (Reply q r) = (if awaiting \<and> q = p then False else awaiting)"

text \<open>The endpoint \<open>remote\<close> gives the replies \<open>rs\<close> to the first posts.\<close>

definition agrees :: "(nat \<Rightarrow> post_result) \<Rightarrow> post_result list \<Rightarrow> bool" where
  "agrees remote rs = (\<forall>k. k < length rs \<longrightarrow> remote (k + 1) = rs ! k)"

text \<open>
  The module \<open>rt\<close> during the renewal that began in the module at rest \<open>rt0\<close> with a call
  for manager \<open>m\<close>: one driver, for the promise created then; the callers \<open>cs\<close> awaiting
  it; the replies \<open>rs\<close> taken so far; and the run from start to end on the store of
  \<open>rt0\<close>, against any endpoint that gives these replies, is what is left of the run on
  the store of \<open>rt\<close>.
\<close>

definition inFlight :: "decoder \<Rightarrow> runtime \<Rightarrow> nat \<Rightarrow> runtime \<Rightarrow> nat list \<Rightarrow> post_result list \<Rightarrow> bool \<Rightarrow> bool" where
  "inFlight d rt0 m rt cs rs aw =
     (\<exists>ph. refreshTokenPromise rt = Some (promises_made rt0) \<and>
           drivers rt = [(promises_made rt0, m, ph)] \<and>
           waiters rt = map (\<lambda>c. (c, promises_made rt0)) cs \<and>
           delivered rt = delivered rt0 \<and>
           promises_made rt = promises_made rt0 + 1 \<and>
           posts_made rt = posts_made rt0 + postsOf ph \<and> phaseOk ph \<and>
           length rs = taken ph \<and> awaitsReply ph = aw \<and>
           (\<forall>m'. m' \<noteq> m \<longrightarrow> managers rt m' = managers rt0 m') \<and>
           (\<forall>remote. agrees remote rs \<longrightarrow>
              silentRefreshToken_body d remote (managers rt0 m) = rest_of_run d remote ph (managers rt m)))"

text \<open>
  The module after that renewal: no promise, no driver, nobody waiting; each of the callers
  \<open>cs\<close> has the result of the run from start to end against the replies \<open>rs\<close>, which
  also gives the store of manager \<open>m\<close> and the number of posts.
\<close>

definition landed :: "decoder \<Rightarrow> runtime \<Rightarrow> nat \<Rightarrow> runtime \<Rightarrow> nat list \<Rightarrow> post_result list \<Rightarrow> bool" where
  "landed d rt0 m rt cs rs =
     (refreshTokenPromise rt = None \<and> drivers rt = [] \<and> waiters rt = [] \<and>
      delivered rt = delivered rt0 @
        map (\<lambda>c. (c, promises_made rt0, fst (silentRefreshToken_body d (remoteOf rs) (managers rt0 m)))) cs \<and>
      promises_made rt = promises_made rt0 + 1 \<and>
      posts_made rt = posts_made rt0 + length rs \<and>
      (\<forall>m'. m' \<noteq> m \<longrightarrow> managers rt m' = managers rt0 m') \<and>
      snd (silentRefreshToken_body d (remoteOf rs) (managers rt0 m)) = (managers rt m, length rs))"

text \<open>
  The module at rest: no promise, no driver, nobody waiting, and every outcome handed out
  so far belongs to a promise created earlier.
\<close>

definition idle :: "runtime \<Rightarrow> bool" where
  "idle rt =
     (refreshTokenPromise rt = None \<and> drivers rt = [] \<and> waiters rt = [] \<and>
      list_all (\<lambda>x. fst (snd x) < promises_made rt) (delivered rt))"

text \<open>Either at rest, or in the renewal that began in a module at rest.\<close>

definition wellFormed :: "decoder \<Rightarrow> runtime \<Rightarrow> bool" where
  "wellFormed d rt =
     (idle rt \<or> (\<exists>rt0 m cs rs aw. idle rt0 \<and> cs \<noteq> [] \<and> inFlight d rt0 m rt cs rs aw))"

section \<open>Polling: pollPaymentStatus and pollMandateStatus\<close>

text \<open>\<^verbatim>\<open>s.includes(p)\<close>: \<open>p\<close> occurs in \<open>s\<close> as a contiguous piece.\<close>

fun startsWith :: "string \<Rightarrow> string \<Rightarrow> bool" where
  "startsWith s [] = True"
| "startsWith [] (p # ps) = False"
| "startsWith (c # cs) (p # ps) = (c = p \<and> startsWith cs ps)"

fun js_includes :: "string \<Rightarrow> string \<Rightarrow> bool" where
  "js_includes [] p = (p = [])"
| "js_includes (c # cs) p = (startsWith (c # cs) p \<or> js_includes cs p)"

text \<open>\<^verbatim>\<open>v?.includes(p)\<close> as a condition: an absent \<open>v\<close> gives \<^verbatim>\<open>undefined\<close>, which is falsy.\<close>

definition optIncludes :: "string option \<Rightarrow> string \<Rightarrow> bool" where
  "optIncludes v p = (case v of None \<Rightarrow> False | Some s \<Rightarrow> js_includes s p)"

text \<open>What a probe (\<^verbatim>\<open>client.post\<close>) gives: the data of the reply, or a thrown error.\<close>

datatype 'a probe = ProbeOk 'a | ProbeThrows js_error

text \<open>The value both polling functions return; the type of \<^verbatim>\<open>data\<close> differs.\<close>

record 'd PollResult =
  success :: bool
  status :: string
  data :: 'd

text \<open>
  One turn of a polling loop: \<open>Return\<close> leaves the function with a result, \<open>Pending\<close>
  is the end of the \<^verbatim>\<open>try\<close> block (pause, next turn), \<open>Swallowed\<close> is the \<^verbatim>\<open>catch\<close>
  block (pause, next turn).
\<close>

datatype 'a turn = Return 'a | Pending | Swallowed js_error

fun returns :: "'a turn \<Rightarrow> bool" where
  "returns (Return res) = True"
| "returns Pending = False"
| "returns (Swallowed e) = False"

record PaymentStatusData =
  pay_status :: "string option"
  pay_data :: "string option"

text \<open>
  The body of the loop of \<^verbatim>\<open>pollPaymentStatus\<close>. The data object of the reply can be
  absent; reading \<^verbatim>\<open>response.data.status\<close> then throws inside the \<^verbatim>\<open>try\<close> block.
\<close>

definition paymentTurn :: "PaymentStatusData option probe \<Rightarrow> (string option) PollResult turn" where
  "paymentTurn r =
     (case r of
        ProbeThrows e \<Rightarrow> Swallowed e
      | ProbeOk None \<Rightarrow> Swallowed TYPE_ERROR
      | ProbeOk (Some d) \<Rightarrow>
          if pay_status d = Some ''SUCCESS'' \<and> optIncludes (pay_data d) ''100|''
          then Return \<lparr>success = True, status = ''APPROVED'', data = pay_data d\<rparr>
          else if pay_status d = Some ''FAILURE'' \<and> optIncludes (pay_data d) ''101|''
          then Return \<lparr>success = False, status = ''REJECTED'', data = pay_data d\<rparr>
          else Pending)"

definition PAYMENT_TIMEOUT :: "(string option) PollResult" where
  "PAYMENT_TIMEOUT = \<lparr>success = False, status = ''TIMEOUT'',
     data = Some ''Payment status could not be confirmed within the timeout period''\<rparr>"

text \<open>
  The loop \<^verbatim>\<open>for (attempt = 1; attempt <= maxAttempts; attempt++)\<close>. \<open>probeAt k\<close> is what
  the \<open>k\<close>-th probe gives; the last argument counts the probes made, and is returned with
  the result. The pause of \<^verbatim>\<open>intervalMs\<close> after a turn that does not return has no effect
  on the result. \<open>maxAttempts\<close> is a natural number: the callers pass 1, 20 and 60, and a
  bound below 1 gives no turn at all, as 0 does here.
\<close>

function pollPaymentLoop ::
  "(nat \<Rightarrow> PaymentStatusData option probe) \<Rightarrow> nat \<Rightarrow> nat \<Rightarrow> nat \<Rightarrow> (string option) PollResult \<times> nat" where
  "pollPaymentLoop probeAt maxAttempts attempt probes =
     (if attempt \<le> maxAttempts then
        (case paymentTurn (probeAt attempt) of
           Return res \<Rightarrow> (res, probes + 1)
         | Pending \<Rightarrow> pollPaymentLoop probeAt maxAttempts (attempt + 1) (probes + 1)
         | Swallowed e \<Rightarrow> pollPaymentLoop probeAt maxAttempts (attempt + 1) (probes + 1))
      else (PAYMENT_TIMEOUT, probes))"
  by pat_completeness auto
termination
  by (relation "measure (\<lambda>(pr, maxAttempts, attempt, probes). maxAttempts + 1 - attempt)") auto

declare pollPaymentLoop.simps [simp del]

definition pollPaymentStatus ::
  "(nat \<Rightarrow> PaymentStatusData option probe) \<Rightarrow> nat \<Rightarrow> (string option) PollResult \<times> nat" where
  "pollPaymentStatus probeAt maxAttempts = pollPaymentLoop probeAt maxAttempts 1 0"

text \<open>The reply of the mandate endpoint, as far as the loop reads it.\<close>

record MandateDetail =
  md_status :: "string option"

record MandateInner =
  in_MandateDetails :: "MandateDetail list option"
  in_mandateStatus :: "string option"

record MandateData =
  top_MandateDetails :: "MandateDetail list option"
  top_data :: "MandateInner option"

text \<open>\<^verbatim>\<open>xs?.[0]\<close>\<close>

definition first :: "'a list option \<Rightarrow> 'a option" where
  "first xs = (case xs of None \<Rightarrow> None | Some [] \<Rightarrow> None | Some (x # rest) \<Rightarrow> Some x)"

text \<open>What the result of \<^verbatim>\<open>pollMandateStatus\<close> carries as \<^verbatim>\<open>data\<close>.\<close>

datatype mandate_payload =
    Details MandateDetail
  | InnerData MandateInner
  | Undefined
  | Text string

text \<open>\<^verbatim>\<open>mandateDetails || response.data.data\<close>; without a data object the read throws.\<close>

definition mandatePayload :: "MandateDetail option \<Rightarrow> MandateData option \<Rightarrow> js_error + mandate_payload" where
  "mandatePayload mandateDetails body =
     (case mandateDetails of
        Some d \<Rightarrow> Inr (Details d)
      | None \<Rightarrow>
          (case body of
             None \<Rightarrow> Inl TYPE_ERROR
           | Some b \<Rightarrow> (case top_data b of None \<Rightarrow> Inr Undefined | Some i \<Rightarrow> Inr (InnerData i))))"

definition mandateTurn :: "MandateData option probe \<Rightarrow> mandate_payload PollResult turn" where
  "mandateTurn r =
     (case r of
        ProbeThrows e \<Rightarrow> Swallowed e
      | ProbeOk body \<Rightarrow>
          (let inner = (case body of None \<Rightarrow> None | Some b \<Rightarrow> top_data b);
               mandateDetails =
                 (case first (case body of None \<Rightarrow> None | Some b \<Rightarrow> top_MandateDetails b) of
                    Some d \<Rightarrow> Some d
                  | None \<Rightarrow> first (case inner of None \<Rightarrow> None | Some i \<Rightarrow> in_MandateDetails i));
               mandateStatus =
                 js_or (case mandateDetails of None \<Rightarrow> None | Some d \<Rightarrow> md_status d)
                       (case inner of None \<Rightarrow> None | Some i \<Rightarrow> in_mandateStatus i)
           in (case mandateStatus of
                 None \<Rightarrow> Pending
               | Some st \<Rightarrow>
                   if st = ''RECEIVED BY EXCHANGE'' \<or> st = ''APPROVED'' \<or> st = ''UNDER PROCESSING''
                   then (case mandatePayload mandateDetails body of
                           Inl e \<Rightarrow> Swallowed e
                         | Inr pl \<Rightarrow> Return \<lparr>success = True, status = st, data = pl\<rparr>)
                   else if st = ''FAILED'' \<or> st = ''REJECTED''
                   then (case mandatePayload mandateDetails body of
                           Inl e \<Rightarrow> Swallowed e
                         | Inr pl \<Rightarrow> Return \<lparr>success = False, status = st, data = pl\<rparr>)
                   else Pending)))"

definition MANDATE_TIMEOUT :: "mandate_payload PollResult" where
  "MANDATE_TIMEOUT = \<lparr>success = False, status = ''TIMEOUT'',
     data = Text ''Mandate status could not be confirmed within the timeout period''\<rparr>"

function pollMandateLoop ::
  "(nat \<Rightarrow> MandateData option probe) \<Rightarrow> nat \<Rightarrow> nat \<Rightarrow> nat \<Rightarrow> mandate_payload PollResult \<times> nat" where
  "pollMandateLoop probeAt maxAttempts attempt probes =
     (if attempt \<le> maxAttempts then
        (case mandateTurn (probeAt attempt) of
           Return res \<Rightarrow> (res, probes + 1)
         | Pending \<Rightarrow> pollMandateLoop probeAt maxAttempts (attempt + 1) (probes + 1)
         | Swallowed e \<Rightarrow> pollMandateLoop probeAt maxAttempts (attempt + 1) (probes + 1))
      else (MANDATE_TIMEOUT, probes))"
  by pat_completeness auto
termination
  by (relation "measure (\<lambda>(pr, maxAttempts, attempt, probes). maxAttempts + 1 - attempt)") auto

declare pollMandateLoop.simps [simp del]

definition pollMandateStatus ::
  "(nat \<Rightarrow> MandateData option probe) \<Rightarrow> nat \<Rightarrow> mandate_payload PollResult \<times> nat" where
  "pollMandateStatus probeAt maxAttempts = pollMandateLoop probeAt maxAttempts 1 0"

text \<open>
  The shape the two loops share, over the turns alone. It serves the proofs: each loop of
  the source is shown to be an instance of it.
\<close>

function pollLoop :: "(nat \<Rightarrow> 'a turn) \<Rightarrow> 'a \<Rightarrow> nat \<Rightarrow> nat \<Rightarrow> nat \<Rightarrow> 'a \<times> nat" where
  "pollLoop turnAt timeout maxAttempts attempt probes =
     (if attempt \<le> maxAttempts then
        (case turnAt attempt of
           Return res \<Rightarrow> (res, probes + 1)
         | Pending \<Rightarrow> pollLoop turnAt timeout maxAttempts (attempt + 1) (probes + 1)
         | Swallowed e \<Rightarrow> pollLoop turnAt timeout maxAttempts (attempt + 1) (probes + 1))
      else (timeout, probes))"
  by pat_completeness auto
termination
  by (relation "measure (\<lambda>(t, tmo, maxAttempts, attempt, probes). maxAttempts + 1 - attempt)") auto

declare pollLoop.simps [simp del]

section \<open>Concrete runs\<close>

text \<open>A platform that answers every send with 401, whatever the bearer credential.\<close>

definition unauthorized :: "nat \<Rightarrow> string \<Rightarrow> unit http_result" where
  "unauthorized k b = HttpError (AxiosError (Some 401) ''Request failed with status code 401'')"

text \<open>
  A store after a login: bearer credential \<^verbatim>\<open>b1\<close>, renewal credential \<^verbatim>\<open>r1\<close>, in the
  cache and in the file.
\<close>

definition loggedIn :: TokenManager where
  "loggedIn =
     \<lparr>cachedToken = Some (emptyObject\<lparr>token := Some ''b1'', refreshToken := Some ''r1''\<rparr>),
      tokenFile = Some (emptyObject\<lparr>token := Some ''b1'', refreshToken := Some ''r1''\<rparr>),
      writable = True\<rparr>"

text \<open>A decoder that finds no field in any token (what \<^verbatim>\<open>decodeJWT\<close> returns on a failure).\<close>

definition decodeNothing :: decoder where
  "decodeNothing tok = Some \<lparr>jwt_phoneNumber = None, jwt_uid = None, jwt_panNumber = None\<rparr>"

text \<open>
  Renewal endpoints: unreachable; answering 403; renewing at once; answering 500 once and
  then renewing.
\<close>

definition networkDown :: "nat \<Rightarrow> post_result" where
  "networkDown k = Rejected (AxiosError None ''Network Error'')"

definition forbidden :: "nat \<Rightarrow> post_result" where
  "forbidden k = Rejected (AxiosError (Some 403) ''Request failed with status code 403'')"

definition renews :: "nat \<Rightarrow> post_result" where
  "renews k = Resolved (Some \<lparr>access_token = Some ''b2'', refresh_token = Some ''r2''\<rparr>)"

definition renewsSecond :: "nat \<Rightarrow> post_result" where
  "renewsSecond k =
     (if k = 1 then Rejected (AxiosError (Some 500) ''Request failed with status code 500'')
      else Resolved (Some \<lparr>access_token = Some ''b2'', refresh_token = Some ''r2''\<rparr>))"

text \<open>
  A store whose record has a phone number, an expiry hint and a PAN but no client code; a
  decoder that finds a client code, no phone number and an empty PAN in any token; a
  renewal endpoint that returns a bearer credential and no renewal credential.
\<close>

definition kycStore :: TokenManager where
  "kycStore =
     \<lparr>cachedToken = Some \<lparr>token = Some ''b1'', refreshToken = Some ''r1'',
        phoneNumber = Some ''+919876543210'', expiresAt = Some ''2026-01-01'',
        clientCode = None, panNumber = Some ''ABCDE1234F''\<rparr>,
      tokenFile = Some \<lparr>token = Some ''b1'', refreshToken = Some ''r1'',
        phoneNumber = Some ''+919876543210'', expiresAt = Some ''2026-01-01'',
        clientCode = None, panNumber = Some ''ABCDE1234F''\<rparr>,
      writable = True\<rparr>"

definition decodeUid :: decoder where
  "decodeUid tok = Some \<lparr>jwt_phoneNumber = None, jwt_uid = Some ''C42'', jwt_panNumber = Some []\<rparr>"

definition renewsBearerOnly :: "nat \<Rightarrow> post_result" where
  "renewsBearerOnly k = Resolved (Some \<lparr>access_token = Some ''b2'', refresh_token = None\<rparr>)"

text \<open>A mandate probe whose status is \<^verbatim>\<open>NEW\<close>.\<close>

definition mandateNEW :: "MandateData option probe" where
  "mandateNEW = ProbeOk (Some \<lparr>top_MandateDetails = Some [\<lparr>md_status = Some ''NEW''\<rparr>], top_data = None\<rparr>)"

text \<open>Payment probes: the third is approved, every other one is pending.\<close>

definition scenarioC :: "nat \<Rightarrow> PaymentStatusData option probe" where
  "scenarioC k =
     (if k = 3 then ProbeOk (Some \<lparr>pay_status = Some ''SUCCESS'', pay_data = Some ''100|approved''\<rparr>)
      else ProbeOk (Some \<lparr>pay_status = Some ''SUCCESS'', pay_data = Some ''pending''\<rparr>))"

text \<open>A process in which every manager holds the store after a login.\<close>

definition allLoggedIn :: "nat \<Rightarrow> TokenManager" where
  "allLoggedIn m = loggedIn"



text \<open>One caller, up to the first post; and the whole renewal, the post being answered 403.\<close>

definition firstPost :: "event list" where
  "firstPost = [Renew 1 0, Tick 0]"

definition failedRenewal :: "event list" where
  "failedRenewal = [Renew 1 0, Tick 0, Reply 0 (forbidden 1)]"

text \<open>
  A caller with manager 0 and, while that renewal is in flight, a caller with manager 1;
  the post is answered with the new pair at once.
\<close>

definition twoManagers :: "event list" where
  "twoManagers = [Renew 1 0, Renew 2 1, Tick 0, Reply 0 (renews 1)]"

section \<open>Properties of the credential store\<close>

text \<open>
  C9. A record written with \<open>saveToken\<close> is the record the next \<open>loadToken\<close> returns, on
  the manager that wrote it (from its cache) and on a manager that starts with an empty
  cache on the same file.
\<close>

theorem saveToken_loadToken_roundtrip:
  "saveToken tm r = Inr tm1 \<Longrightarrow>
     loadToken tm1 = (Some r, tm1) \<and>
     fst (loadToken (tm1\<lparr>cachedToken := None\<rparr>)) = Some r"
  by (auto simp: saveToken_def loadToken_def split: if_splits)

theorem saveToken_loadToken_roundtrip_witness:
  "saveToken \<lparr>cachedToken = None, tokenFile = None, writable = True\<rparr>
       (emptyObject\<lparr>token := Some ''b1'', refreshToken := Some ''r1''\<rparr>)
     = Inr \<lparr>cachedToken = Some (emptyObject\<lparr>token := Some ''b1'', refreshToken := Some ''r1''\<rparr>),
            tokenFile = Some (emptyObject\<lparr>token := Some ''b1'', refreshToken := Some ''r1''\<rparr>),
            writable = True\<rparr>
   \<and> fst (loadToken \<lparr>cachedToken = Some (emptyObject\<lparr>token := Some ''b1'', refreshToken := Some ''r1''\<rparr>),
            tokenFile = Some (emptyObject\<lparr>token := Some ''b1'', refreshToken := Some ''r1''\<rparr>),
            writable = True\<rparr>)
     = Some (emptyObject\<lparr>token := Some ''b1'', refreshToken := Some ''r1''\<rparr>)"
proof -
  have h: "saveToken \<lparr>cachedToken = None, tokenFile = None, writable = True\<rparr>
       (emptyObject\<lparr>token := Some ''b1'', refreshToken := Some ''r1''\<rparr>)
     = Inr \<lparr>cachedToken = Some (emptyObject\<lparr>token := Some ''b1'', refreshToken := Some ''r1''\<rparr>),
            tokenFile = Some (emptyObject\<lparr>token := Some ''b1'', refreshToken := Some ''r1''\<rparr>),
            writable = True\<rparr>"
    by (simp add: saveToken_def)
  from saveToken_loadToken_roundtrip [OF h] h show ?thesis by simp
qed

section \<open>Properties of the renewal loop\<close>

lemma attemptTry_Inl_store:
  "attemptTry d td tm r = (Inl e, tm1) \<Longrightarrow> tm1 = tm"
  by (auto simp: attemptTry_def split: post_result.splits option.splits if_splits sum.splits)

lemma refreshAttempt_Continue_store:
  "refreshAttempt d td tm r = (Continue e, tm1) \<Longrightarrow> tm1 = tm"
  by (auto simp: refreshAttempt_def split: prod.splits sum.splits if_splits dest: attemptTry_Inl_store)

lemma refreshAttempt_Abort_store:
  "refreshAttempt d td tm r = (Abort e, tm1) \<Longrightarrow> tm1 = tm"
  by (auto simp: refreshAttempt_def split: prod.splits sum.splits if_splits dest: attemptTry_Inl_store)

lemma refreshAttempt_authRejection:
  "authRejection r \<Longrightarrow> refreshAttempt d td tm r = (Abort (Error ''REFRESH_TOKEN_EXPIRED''), tm)"
  by (cases r) (auto simp: refreshAttempt_def attemptTry_def)

lemma refreshAttempt_Done:
  assumes "refreshAttempt d td tm r = (Done tok, tm1)"
  shows "\<exists>dat decodedToken.
           r = Resolved (Some dat) \<and> access_token dat = Some tok \<and> tok \<noteq> [] \<and>
           d tok = Some decodedToken \<and> writable tm \<and>
           tm1 = tm\<lparr>tokenFile := Some (updatedAuthToken tok dat decodedToken td),
                    cachedToken := Some (updatedAuthToken tok dat decodedToken td)\<rparr>"
proof -
  from assms have t: "attemptTry d td tm r = (Inr tok, tm1)"
    by (auto simp: refreshAttempt_def split: prod.splits sum.splits if_splits)
  then show ?thesis
    by (auto simp: attemptTry_def saveToken_def
             split: post_result.splits option.splits if_splits sum.splits)
qed

lemma refreshLoop_cases:
  "a \<le> maxRetries + 1 \<Longrightarrow> refreshLoop d remote td a le tm p = (res, tm', n) \<Longrightarrow>
     (\<exists>k. a \<le> k \<and> k \<le> maxRetries \<and> n + a = p + k + 1 \<and>
          (\<forall>j. a \<le> j \<and> j < k \<longrightarrow> continues (fst (refreshAttempt d td tm (remote j)))) \<and>
          ((\<exists>tok. refreshAttempt d td tm (remote k) = (Done tok, tm') \<and> res = Inr tok)
           \<or> (\<exists>e. refreshAttempt d td tm (remote k) = (Abort e, tm') \<and> res = Inl e)))
     \<or> (n + a = p + maxRetries + 1 \<and> tm' = tm \<and>
          (\<forall>j. a \<le> j \<and> j \<le> maxRetries \<longrightarrow> continues (fst (refreshAttempt d td tm (remote j)))) \<and>
          res = Inl (finalError d remote td tm a le))"
proof (induction d remote td a le tm p rule: refreshLoop.induct)
  case (1 d remote td a le tm p)
  show ?case
  proof (cases "a \<le> maxRetries")
    case False
    then have "refreshLoop d remote td a le tm p =
        (Inl (case le of Some e \<Rightarrow> e | None \<Rightarrow> Error ''REFRESH_FAILED''), tm, p)"
      by (simp add: refreshLoop.simps [of d remote td a le tm p])
    with "1.prems" have "res = Inl (finalError d remote td tm a le)" "tm' = tm" "n = p"
      using False by (simp_all add: finalError_def)
    moreover from False "1.prems" have "a = maxRetries + 1" by simp
    ultimately show ?thesis by auto
  next
    case True
    obtain o1 tm1 where att: "refreshAttempt d td tm (remote a) = (o1, tm1)"
      by (cases "refreshAttempt d td tm (remote a)")
    show ?thesis
    proof (cases o1)
      case (Done tok)
      with att True "1.prems" have "res = Inr tok" "tm' = tm1" "n = p + 1"
        by (simp_all add: refreshLoop.simps [of d remote td a le tm p])
      with att Done True have "a \<le> a \<and> a \<le> maxRetries \<and> n + a = p + a + 1 \<and>
          (\<forall>j. a \<le> j \<and> j < a \<longrightarrow> continues (fst (refreshAttempt d td tm (remote j)))) \<and>
          ((\<exists>tok. refreshAttempt d td tm (remote a) = (Done tok, tm') \<and> res = Inr tok)
           \<or> (\<exists>e. refreshAttempt d td tm (remote a) = (Abort e, tm') \<and> res = Inl e))"
        by auto
      then show ?thesis by blast
    next
      case (Abort e)
      with att True "1.prems" have "res = Inl e" "tm' = tm1" "n = p + 1"
        by (simp_all add: refreshLoop.simps [of d remote td a le tm p])
      with att Abort True have "a \<le> a \<and> a \<le> maxRetries \<and> n + a = p + a + 1 \<and>
          (\<forall>j. a \<le> j \<and> j < a \<longrightarrow> continues (fst (refreshAttempt d td tm (remote j)))) \<and>
          ((\<exists>tok. refreshAttempt d td tm (remote a) = (Done tok, tm') \<and> res = Inr tok)
           \<or> (\<exists>e. refreshAttempt d td tm (remote a) = (Abort e, tm') \<and> res = Inl e))"
        by auto
      then show ?thesis by blast
    next
      case (Continue e)
      with att have tm1: "tm1 = tm" by (auto dest: refreshAttempt_Continue_store)
      from att Continue tm1 have att': "refreshAttempt d td tm (remote a) = (Continue e, tm)" by simp
      with True "1.prems" have run: "refreshLoop d remote td (a + 1) (Some e) tm (p + 1) = (res, tm', n)"
        by (simp add: refreshLoop.simps [of d remote td a le tm p])
      from att' have here: "continues (fst (refreshAttempt d td tm (remote a)))" by simp
      from "1.IH" [OF True att' [symmetric] refl _ run] True consider
        (found) k where "a + 1 \<le> k" "k \<le> maxRetries" "n + (a + 1) = p + 1 + k + 1"
          "\<forall>j. a + 1 \<le> j \<and> j < k \<longrightarrow> continues (fst (refreshAttempt d td tm (remote j)))"
          "(\<exists>tok. refreshAttempt d td tm (remote k) = (Done tok, tm') \<and> res = Inr tok)
           \<or> (\<exists>e. refreshAttempt d td tm (remote k) = (Abort e, tm') \<and> res = Inl e)"
      | (exhausted) "n + (a + 1) = p + 1 + maxRetries + 1" "tm' = tm"
          "\<forall>j. a + 1 \<le> j \<and> j \<le> maxRetries \<longrightarrow> continues (fst (refreshAttempt d td tm (remote j)))"
          "res = Inl (finalError d remote td tm (a + 1) (Some e))"
        by auto
      then show ?thesis
      proof cases
        case found
        have "\<forall>j. a \<le> j \<and> j < k \<longrightarrow> continues (fst (refreshAttempt d td tm (remote j)))"
        proof (intro allI impI)
          fix j assume "a \<le> j \<and> j < k"
          then have "j = a \<or> (a + 1 \<le> j \<and> j < k)" by arith
          with here found(4) show "continues (fst (refreshAttempt d td tm (remote j)))" by blast
        qed
        moreover from found have "a \<le> k" "n + a = p + k + 1" by simp_all
        ultimately show ?thesis using found(2,5) by blast
      next
        case exhausted
        have all: "\<forall>j. a \<le> j \<and> j \<le> maxRetries \<longrightarrow> continues (fst (refreshAttempt d td tm (remote j)))"
        proof (intro allI impI)
          fix j assume "a \<le> j \<and> j \<le> maxRetries"
          then have "j = a \<or> (a + 1 \<le> j \<and> j \<le> maxRetries)" by arith
          with here exhausted(3) show "continues (fst (refreshAttempt d td tm (remote j)))" by blast
        qed
        have "finalError d remote td tm (a + 1) (Some e) = finalError d remote td tm a le"
        proof (cases "a + 1 \<le> maxRetries")
          case True
          with \<open>a \<le> maxRetries\<close> show ?thesis by (simp add: finalError_def)
        next
          case False
          with \<open>a \<le> maxRetries\<close> have "a = maxRetries" by simp
          with att' False show ?thesis by (simp add: finalError_def)
        qed
        with exhausted have "res = Inl (finalError d remote td tm a le)" by simp
        moreover from exhausted have "n + a = p + maxRetries + 1" by simp
        ultimately show ?thesis using all exhausted(2) by blast
      qed
    qed
  qed
qed

lemma body_cases:
  assumes "silentRefreshToken_body d remote tm = (res, tm', n)"
  shows "(n = 0 \<and> res = Inl (Error ''REFRESH_TOKEN_MISSING'') \<and> tm' = snd (loadToken tm) \<and>
            \<not> (\<exists>td. fst (loadToken tm) = Some td \<and> truthy (refreshToken td)))
       \<or> (\<exists>td. fst (loadToken tm) = Some td \<and> truthy (refreshToken td) \<and>
             refreshLoop d remote td 1 None (snd (loadToken tm)) 0 = (res, tm', n))"
  using assms
  by (cases "loadToken tm")
     (auto simp: silentRefreshToken_body_def split: option.splits if_splits)

lemma forbidden_run:
  "silentRefreshToken_body decodeNothing forbidden loggedIn =
     (Inl (Error ''REFRESH_TOKEN_EXPIRED''), loggedIn, 1)"
  by code_simp

text \<open>
  C5. A renewal post answered with 401 or 403 is the last post of its run, and the run
  fails with \<^verbatim>\<open>REFRESH_TOKEN_EXPIRED\<close>: of the \<open>n\<close> posts a run makes (at most 3), none
  before the last was answered so, and if the last was, the failure is classified as
  expired. With a renewal credential in the store and a 401 or 403 on the first attempt,
  the run makes exactly one post.
\<close>

theorem renewal_stops_at_401_403:
  assumes "silentRefreshToken_body decodeJWT remote tm = (res, tm', n)"
  shows "n \<le> 3
     \<and> (\<forall>j. 1 \<le> j \<and> j < n \<longrightarrow> \<not> authRejection (remote j))
     \<and> (1 \<le> n \<and> authRejection (remote n) \<longrightarrow> res = Inl (Error ''REFRESH_TOKEN_EXPIRED''))
     \<and> ((\<exists>td. fst (loadToken tm) = Some td \<and> truthy (refreshToken td)) \<and> authRejection (remote 1)
          \<longrightarrow> n = 1 \<and> res = Inl (Error ''REFRESH_TOKEN_EXPIRED''))"
proof -
  from body_cases [OF assms] consider
    (missing) "n = 0" "\<not> (\<exists>td. fst (loadToken tm) = Some td \<and> truthy (refreshToken td))"
  | (loop) td where "refreshLoop decodeJWT remote td 1 None (snd (loadToken tm)) 0 = (res, tm', n)"
    by blast
  then show ?thesis
  proof cases
    case missing
    then show ?thesis by simp
  next
    case loop
    let ?tm = "snd (loadToken tm)"
    let ?o = "\<lambda>j. fst (refreshAttempt decodeJWT td ?tm (remote j))"
    have no_auth: "\<not> authRejection (remote j)" if "continues (?o j)" for j
      using that refreshAttempt_authRejection [of "remote j" decodeJWT td ?tm] by auto
    have auth_first: "\<not> continues (?o j)" if "authRejection (remote j)" for j
      using that no_auth by blast
    from refreshLoop_cases [OF _ loop] consider
      (stopped) k where "1 \<le> k" "k \<le> maxRetries" "n = k"
        "\<forall>j. 1 \<le> j \<and> j < k \<longrightarrow> continues (?o j)"
        "(\<exists>tok. refreshAttempt decodeJWT td ?tm (remote k) = (Done tok, tm') \<and> res = Inr tok)
           \<or> (\<exists>e. refreshAttempt decodeJWT td ?tm (remote k) = (Abort e, tm') \<and> res = Inl e)"
    | (exhausted) "n = maxRetries" "\<forall>j. 1 \<le> j \<and> j \<le> maxRetries \<longrightarrow> continues (?o j)"
      by (auto simp: maxRetries_def)
    then show ?thesis
    proof cases
      case stopped
      have a: "n \<le> 3" using stopped by (simp add: maxRetries_def)
      have b: "\<forall>j. 1 \<le> j \<and> j < n \<longrightarrow> \<not> authRejection (remote j)"
        using stopped(3,4) no_auth by blast
      have c: "res = Inl (Error ''REFRESH_TOKEN_EXPIRED'')" if "authRejection (remote n)"
        using stopped(3,5) refreshAttempt_authRejection [OF that, of decodeJWT td ?tm] by auto
      have d: "n = 1" if "authRejection (remote 1)"
      proof (rule ccontr)
        assume "n \<noteq> 1"
        with stopped(1,3) have "1 \<le> (1::nat) \<and> 1 < k" by simp
        with stopped(4) have "continues (?o 1)" by blast
        with auth_first [OF that] show False by simp
      qed
      from a b c d show ?thesis by blast
    next
      case exhausted
      have a: "n \<le> 3" using exhausted by (simp add: maxRetries_def)
      have b: "\<forall>j. 1 \<le> j \<and> j < n \<longrightarrow> \<not> authRejection (remote j)"
        using exhausted no_auth by auto
      have c: "\<not> authRejection (remote n)"
        using exhausted no_auth [of n] by (simp add: maxRetries_def)
      have d: "\<not> authRejection (remote 1)"
        using exhausted(2) no_auth [of 1] by (simp add: maxRetries_def)
      from a b c d show ?thesis by blast
    qed
  qed
qed

theorem renewal_stops_at_401_403_witness:
  "authRejection (forbidden 1) \<and>
   silentRefreshToken_body decodeNothing forbidden loggedIn =
     (Inl (Error ''REFRESH_TOKEN_EXPIRED''), loggedIn, 1)"
  using renewal_stops_at_401_403 [OF forbidden_run] forbidden_run
  by (simp add: forbidden_def)

lemma refreshAttempt_transient:
  "transient r \<Longrightarrow> \<exists>e. r = Rejected e \<and> refreshAttempt d td tm r = (Continue e, tm)"
  by (cases r rule: transient.cases) (auto simp: refreshAttempt_def attemptTry_def)

text \<open>
  C6, as the code has it. With a renewal credential in the store and three attempts that
  fail transiently, the run makes exactly 3 posts, leaves the store as it was and fails by
  throwing again the error of the third attempt itself: the error \<^verbatim>\<open>REFRESH_FAILED\<close> after
  the loop stands behind \<^verbatim>\<open>lastError ||\<close> and is not reached.
\<close>

theorem renewal_exhausted_rethrows_last_error:
  assumes "fst (loadToken tm) = Some tokenData" and "truthy (refreshToken tokenData)"
    and "\<forall>k. 1 \<le> k \<and> k \<le> 3 \<longrightarrow> transient (remote k)"
  shows "\<exists>e. remote 3 = Rejected e \<and>
           silentRefreshToken_body decodeJWT remote tm = (Inl e, snd (loadToken tm), 3)"
proof -
  let ?tm = "snd (loadToken tm)"
  let ?o = "\<lambda>j. refreshAttempt decodeJWT tokenData ?tm (remote j)"
  have cont: "continues (fst (?o j))" if "1 \<le> j \<and> j \<le> 3" for j
    using assms(3) that refreshAttempt_transient [of "remote j" decodeJWT tokenData ?tm] by auto
  from assms(3) have "transient (remote 3)" by simp
  from refreshAttempt_transient [OF this, of decodeJWT tokenData ?tm]
  obtain e3 where r3: "remote 3 = Rejected e3" and e3: "?o 3 = (Continue e3, ?tm)" by blast
  obtain res tm' n where run: "refreshLoop decodeJWT remote tokenData 1 None ?tm 0 = (res, tm', n)"
    by (cases "refreshLoop decodeJWT remote tokenData 1 None ?tm 0")
  from refreshLoop_cases [OF _ run] consider
    (stopped) k where "1 \<le> k" "k \<le> maxRetries"
      "(\<exists>tok. ?o k = (Done tok, tm')) \<or> (\<exists>e. ?o k = (Abort e, tm'))"
  | (exhausted) "n = maxRetries" "tm' = ?tm"
      "res = Inl (finalError decodeJWT remote tokenData ?tm 1 None)"
    by (auto simp: maxRetries_def)
  then have "res = Inl e3 \<and> tm' = ?tm \<and> n = 3"
  proof cases
    case stopped
    from stopped(1,2) have "continues (fst (?o k))" by (intro cont) (simp add: maxRetries_def)
    with stopped(3) show ?thesis by auto
  next
    case exhausted
    with e3 show ?thesis by (simp add: finalError_def maxRetries_def)
  qed
  with run assms(1,2) have "silentRefreshToken_body decodeJWT remote tm = (Inl e3, ?tm, 3)"
    by (cases "loadToken tm") (simp add: silentRefreshToken_body_def)
  with r3 show ?thesis by blast
qed

theorem renewal_exhausted_rethrows_last_error_witness:
  "silentRefreshToken_body decodeNothing networkDown loggedIn =
     (Inl (AxiosError None ''Network Error''), loggedIn, 3)"
proof -
  have ld: "loadToken loggedIn =
      (Some (emptyObject\<lparr>token := Some ''b1'', refreshToken := Some ''r1''\<rparr>), loggedIn)"
    by (simp add: loadToken_def loggedIn_def)
  have h1: "fst (loadToken loggedIn) = Some (emptyObject\<lparr>token := Some ''b1'', refreshToken := Some ''r1''\<rparr>)"
    by (simp add: ld)
  have h2: "truthy (refreshToken (emptyObject\<lparr>token := Some ''b1'', refreshToken := Some ''r1''\<rparr>))"
    by (simp add: truthy_def)
  have h3: "\<forall>k. 1 \<le> k \<and> k \<le> 3 \<longrightarrow> transient (networkDown k)"
    by (simp add: networkDown_def)
  from renewal_exhausted_rethrows_last_error [OF h1 h2 h3, of decodeNothing]
  obtain e where e: "networkDown 3 = Rejected e"
    and run: "silentRefreshToken_body decodeNothing networkDown loggedIn = (Inl e, snd (loadToken loggedIn), 3)"
    by blast
  from e have "e = AxiosError None ''Network Error''" by (simp add: networkDown_def)
  with run ld show ?thesis by simp
qed

text \<open>
  C6, as the claim has it, fails: with the network down on all three attempts the run does
  not fail with \<^verbatim>\<open>REFRESH_FAILED\<close>.
\<close>

theorem renewal_exhausted_counterexample:
  "fst (silentRefreshToken_body decodeNothing networkDown loggedIn) \<noteq> Inl (Error ''REFRESH_FAILED'')"
  by code_simp

lemma requireToken_after_save:
  "tok \<noteq> [] \<Longrightarrow> cachedToken tm = Some t \<Longrightarrow> token t = Some tok \<Longrightarrow> requireToken tm = (Inr tok, tm)"
  by (simp add: requireToken_def loadToken_def)

lemma renews_run:
  "silentRefreshToken_body decodeNothing renews loggedIn =
     (Inr ''b2'',
      loggedIn\<lparr>tokenFile := Some (emptyObject\<lparr>token := Some ''b2'', refreshToken := Some ''r2''\<rparr>),
               cachedToken := Some (emptyObject\<lparr>token := Some ''b2'', refreshToken := Some ''r2''\<rparr>)\<rparr>,
      1)"
  by code_simp

lemma renewal_success_only_from_grant:
  assumes "silentRefreshToken_body decodeJWT remote tm = (Inr tok, tm', n)"
  shows "\<exists>old dat decodedToken new.
           fst (loadToken tm) = Some old \<and> 1 \<le> n \<and> n \<le> 3 \<and>
           remote n = Resolved (Some dat) \<and> access_token dat = Some tok \<and>
           decodeJWT tok = Some decodedToken \<and>
           cachedToken tm' = Some new \<and> tokenFile tm' = Some new \<and>
           token new = Some tok \<and>
           refreshToken new = (if truthy (refresh_token dat) then refresh_token dat else refreshToken old) \<and>
           phoneNumber new =
             (if truthy (jwt_phoneNumber decodedToken) then jwt_phoneNumber decodedToken else phoneNumber old) \<and>
           clientCode new = (if truthy (jwt_uid decodedToken) then jwt_uid decodedToken else clientCode old) \<and>
           panNumber new =
             (if truthy (jwt_panNumber decodedToken) then jwt_panNumber decodedToken else panNumber old) \<and>
           expiresAt new = None \<and>
           requireToken tm' = (Inr tok, tm')"
proof -
  let ?tm = "snd (loadToken tm)"
  from body_cases [OF assms] obtain old where old: "fst (loadToken tm) = Some old"
    and loop: "refreshLoop decodeJWT remote old 1 None ?tm 0 = (Inr tok, tm', n)"
    by auto
  from refreshLoop_cases [OF _ loop] obtain k where k: "1 \<le> k" "k \<le> maxRetries" "n = k"
    and dn: "refreshAttempt decodeJWT old ?tm (remote k) = (Done tok, tm')"
    by (auto simp: maxRetries_def)
  from refreshAttempt_Done [OF dn] obtain dat decodedToken where
    r: "remote k = Resolved (Some dat)" "access_token dat = Some tok" "tok \<noteq> []"
       "decodeJWT tok = Some decodedToken"
    and tm': "tm' = ?tm\<lparr>tokenFile := Some (updatedAuthToken tok dat decodedToken old),
                    cachedToken := Some (updatedAuthToken tok dat decodedToken old)\<rparr>"
    by blast
  let ?new = "updatedAuthToken tok dat decodedToken old"
  from tm' have c: "cachedToken tm' = Some ?new" and f: "tokenFile tm' = Some ?new" by simp_all
  have t: "token ?new = Some tok" by (simp add: updatedAuthToken_def)
  from requireToken_after_save [OF r(3) c t] have q: "requireToken tm' = (Inr tok, tm')" .
  have fields:
    "refreshToken ?new = (if truthy (refresh_token dat) then refresh_token dat else refreshToken old)"
    "phoneNumber ?new =
       (if truthy (jwt_phoneNumber decodedToken) then jwt_phoneNumber decodedToken else phoneNumber old)"
    "clientCode ?new = (if truthy (jwt_uid decodedToken) then jwt_uid decodedToken else clientCode old)"
    "panNumber ?new =
       (if truthy (jwt_panNumber decodedToken) then jwt_panNumber decodedToken else panNumber old)"
    "expiresAt ?new = None"
    by (simp_all add: updatedAuthToken_def js_or_def)
  from k have n: "1 \<le> n" "n \<le> 3" by (simp_all add: maxRetries_def)
  from r(1) k(3) have rn: "remote n = Resolved (Some dat)" by simp
  show ?thesis
    using old n rn r(2) r(4) c f t fields q by blast
qed

lemma loadToken_writable: "loadToken tm = (t, tm1) \<Longrightarrow> writable tm1 = writable tm"
  by (auto simp: loadToken_def split: option.splits)

lemma refreshAttempt_grant:
  assumes "writable tm" and "access_token dat = Some tok" and "tok \<noteq> []"
    and "d tok = Some decodedToken"
  shows "refreshAttempt d td tm (Resolved (Some dat)) =
     (Done tok, tm\<lparr>tokenFile := Some (updatedAuthToken tok dat decodedToken td),
                    cachedToken := Some (updatedAuthToken tok dat decodedToken td)\<rparr>)"
  using assms by (simp add: refreshAttempt_def attemptTry_def saveToken_def)

lemma refreshLoop_first_grant:
  assumes "1 \<le> k" and "k \<le> maxRetries"
    and "\<forall>j. 1 \<le> j \<and> j < k \<longrightarrow> continues (fst (refreshAttempt d td tm (remote j)))"
    and "refreshAttempt d td tm (remote k) = (Done tok, tm')"
  shows "refreshLoop d remote td 1 None tm 0 = (Inr tok, tm', k)"
proof -
  let ?o = "\<lambda>j. refreshAttempt d td tm (remote j)"
  obtain res tm2 n where run: "refreshLoop d remote td 1 None tm 0 = (res, tm2, n)"
    by (cases "refreshLoop d remote td 1 None tm 0")
  from assms(4) have notc: "\<not> continues (fst (?o k))" by simp
  from refreshLoop_cases [OF _ run] consider
    (stopped) k' where "1 \<le> k'" "k' \<le> maxRetries" "n = k'"
      "\<forall>j. 1 \<le> j \<and> j < k' \<longrightarrow> continues (fst (?o j))"
      "(\<exists>tok. ?o k' = (Done tok, tm2) \<and> res = Inr tok) \<or> (\<exists>e. ?o k' = (Abort e, tm2) \<and> res = Inl e)"
  | (exhausted) "\<forall>j. 1 \<le> j \<and> j \<le> maxRetries \<longrightarrow> continues (fst (?o j))"
    by (auto simp: maxRetries_def)
  then show ?thesis
  proof cases
    case stopped
    from stopped(5) have "\<not> continues (fst (?o k'))" by auto
    with assms(3) stopped(1) have "\<not> k' < k" by blast
    moreover from notc stopped(4) assms(1) have "\<not> k < k'" by blast
    ultimately have "k' = k" by simp
    with stopped(3,5) assms(4) run show ?thesis by auto
  next
    case exhausted
    with notc assms(1,2) show ?thesis by blast
  qed
qed

text \<open>
  C8. With a renewal credential in the store \<open>tm\<close>, a token file that can be written,
  transient failures on the attempts before the \<open>k\<close>-th and a \<open>k\<close>-th reply carrying the
  bearer credential \<open>tok\<close>, the run succeeds with \<open>tok\<close> after \<open>k\<close> posts and leaves in
  the store, cache and file alike, the one record \<open>new\<close>: the new bearer credential; the
  renewal credential of the reply if it has one, else the old one; phone number, client
  code and PAN as decoded from the new bearer credential where the token carries them,
  else as in the old record; no expiry hint. \<open>requireToken\<close> on that store returns \<open>tok\<close>.
\<close>

theorem granted_renewal_replaces_record:
  assumes "loadToken tm = (Some old, tm1)" and "truthy (refreshToken old)" and "writable tm"
    and "1 \<le> k" and "k \<le> 3"
    and "\<forall>j. 1 \<le> j \<and> j < k \<longrightarrow> transient (remote j)"
    and "remote k = Resolved (Some dat)" and "access_token dat = Some tok" and "tok \<noteq> []"
    and "decodeJWT tok = Some decodedToken"
    and "new = \<lparr>token = Some tok,
           refreshToken = (if truthy (refresh_token dat) then refresh_token dat else refreshToken old),
           phoneNumber =
             (if truthy (jwt_phoneNumber decodedToken) then jwt_phoneNumber decodedToken else phoneNumber old),
           expiresAt = None,
           clientCode = (if truthy (jwt_uid decodedToken) then jwt_uid decodedToken else clientCode old),
           panNumber =
             (if truthy (jwt_panNumber decodedToken) then jwt_panNumber decodedToken else panNumber old)\<rparr>"
  shows "silentRefreshToken_body decodeJWT remote tm =
           (Inr tok, tm1\<lparr>tokenFile := Some new, cachedToken := Some new\<rparr>, k)
     \<and> requireToken (tm1\<lparr>tokenFile := Some new, cachedToken := Some new\<rparr>) =
           (Inr tok, tm1\<lparr>tokenFile := Some new, cachedToken := Some new\<rparr>)"
proof -
  from loadToken_writable [OF assms(1)] assms(3) have w: "writable tm1" by simp
  have new: "new = updatedAuthToken tok dat decodedToken old"
    by (simp add: assms(11) updatedAuthToken_def js_or_def)
  from refreshAttempt_grant [where d = decodeJWT and td = old, OF w assms(8,9,10)] assms(7) new
  have grant: "refreshAttempt decodeJWT old tm1 (remote k) =
      (Done tok, tm1\<lparr>tokenFile := Some new, cachedToken := Some new\<rparr>)" by simp
  have earlier: "\<forall>j. 1 \<le> j \<and> j < k \<longrightarrow> continues (fst (refreshAttempt decodeJWT old tm1 (remote j)))"
  proof (intro allI impI)
    fix j assume "1 \<le> j \<and> j < k"
    with assms(6) have "transient (remote j)" by blast
    from refreshAttempt_transient [OF this, of decodeJWT old tm1]
    show "continues (fst (refreshAttempt decodeJWT old tm1 (remote j)))" by auto
  qed
  from assms(5) have "k \<le> maxRetries" by (simp add: maxRetries_def)
  from refreshLoop_first_grant [OF assms(4) this earlier grant] assms(1,2)
  have body: "silentRefreshToken_body decodeJWT remote tm =
           (Inr tok, tm1\<lparr>tokenFile := Some new, cachedToken := Some new\<rparr>, k)"
    by (simp add: silentRefreshToken_body_def)
  have "token new = Some tok" by (simp add: assms(11))
  from requireToken_after_save [OF assms(9) _ this, of "tm1\<lparr>tokenFile := Some new, cachedToken := Some new\<rparr>"]
  have "requireToken (tm1\<lparr>tokenFile := Some new, cachedToken := Some new\<rparr>) =
           (Inr tok, tm1\<lparr>tokenFile := Some new, cachedToken := Some new\<rparr>)" by simp
  with body show ?thesis by simp
qed

theorem granted_renewal_replaces_record_witness:
  "silentRefreshToken_body decodeUid renewsBearerOnly kycStore =
     (Inr ''b2'',
      kycStore\<lparr>tokenFile := Some \<lparr>token = Some ''b2'', refreshToken = Some ''r1'',
                   phoneNumber = Some ''+919876543210'', expiresAt = None,
                   clientCode = Some ''C42'', panNumber = Some ''ABCDE1234F''\<rparr>,
                cachedToken := Some \<lparr>token = Some ''b2'', refreshToken = Some ''r1'',
                   phoneNumber = Some ''+919876543210'', expiresAt = None,
                   clientCode = Some ''C42'', panNumber = Some ''ABCDE1234F''\<rparr>\<rparr>,
      1)
   \<and> silentRefreshToken_body decodeNothing renewsSecond loggedIn =
     (Inr ''b2'',
      loggedIn\<lparr>tokenFile := Some (emptyObject\<lparr>token := Some ''b2'', refreshToken := Some ''r2''\<rparr>),
               cachedToken := Some (emptyObject\<lparr>token := Some ''b2'', refreshToken := Some ''r2''\<rparr>)\<rparr>,
      2)
   \<and> fst (requireToken
        (loggedIn\<lparr>tokenFile := Some (emptyObject\<lparr>token := Some ''b2'', refreshToken := Some ''r2''\<rparr>),
               cachedToken := Some (emptyObject\<lparr>token := Some ''b2'', refreshToken := Some ''r2''\<rparr>)\<rparr>))
       = Inr ''b2''"
proof -
  have a: "loadToken kycStore =
      (Some \<lparr>token = Some ''b1'', refreshToken = Some ''r1'',
        phoneNumber = Some ''+919876543210'', expiresAt = Some ''2026-01-01'',
        clientCode = None, panNumber = Some ''ABCDE1234F''\<rparr>, kycStore)"
    by (simp add: loadToken_def kycStore_def)
  have first: "silentRefreshToken_body decodeUid renewsBearerOnly kycStore =
     (Inr ''b2'',
      kycStore\<lparr>tokenFile := Some \<lparr>token = Some ''b2'', refreshToken = Some ''r1'',
                   phoneNumber = Some ''+919876543210'', expiresAt = None,
                   clientCode = Some ''C42'', panNumber = Some ''ABCDE1234F''\<rparr>,
                cachedToken := Some \<lparr>token = Some ''b2'', refreshToken = Some ''r1'',
                   phoneNumber = Some ''+919876543210'', expiresAt = None,
                   clientCode = Some ''C42'', panNumber = Some ''ABCDE1234F''\<rparr>\<rparr>,
      1)"
    using granted_renewal_replaces_record [OF a, where k = 1 and remote = renewsBearerOnly
        and decodeJWT = decodeUid and tok = "''b2''"
        and dat = "\<lparr>access_token = Some ''b2'', refresh_token = None\<rparr>"
        and decodedToken = "\<lparr>jwt_phoneNumber = None, jwt_uid = Some ''C42'', jwt_panNumber = Some []\<rparr>",
        OF _ _ _ _ _ _ _ _ _ refl]
    by (simp add: truthy_def kycStore_def renewsBearerOnly_def decodeUid_def)
  have b: "loadToken loggedIn =
      (Some (emptyObject\<lparr>token := Some ''b1'', refreshToken := Some ''r1''\<rparr>), loggedIn)"
    by (simp add: loadToken_def loggedIn_def)
  have second: "silentRefreshToken_body decodeNothing renewsSecond loggedIn =
     (Inr ''b2'',
      loggedIn\<lparr>tokenFile := Some (emptyObject\<lparr>token := Some ''b2'', refreshToken := Some ''r2''\<rparr>),
               cachedToken := Some (emptyObject\<lparr>token := Some ''b2'', refreshToken := Some ''r2''\<rparr>)\<rparr>,
      2)
    \<and> requireToken
        (loggedIn\<lparr>tokenFile := Some (emptyObject\<lparr>token := Some ''b2'', refreshToken := Some ''r2''\<rparr>),
               cachedToken := Some (emptyObject\<lparr>token := Some ''b2'', refreshToken := Some ''r2''\<rparr>)\<rparr>)
       = (Inr ''b2'',
        loggedIn\<lparr>tokenFile := Some (emptyObject\<lparr>token := Some ''b2'', refreshToken := Some ''r2''\<rparr>),
               cachedToken := Some (emptyObject\<lparr>token := Some ''b2'', refreshToken := Some ''r2''\<rparr>)\<rparr>)"
    using granted_renewal_replaces_record [OF b, where k = 2 and remote = renewsSecond
        and decodeJWT = decodeNothing and tok = "''b2''"
        and dat = "\<lparr>access_token = Some ''b2'', refresh_token = Some ''r2''\<rparr>"
        and decodedToken = "\<lparr>jwt_phoneNumber = None, jwt_uid = None, jwt_panNumber = None\<rparr>",
        OF _ _ _ _ _ _ _ _ _ refl]
    by (simp add: truthy_def loggedIn_def renewsSecond_def decodeNothing_def emptyObject_def)
  from first second show ?thesis by simp
qed

section \<open>Properties of the request executor\<close>

lemma client_retry:
  "client d remote server True sends posts bearer tm =
     (passed (server (sends + 1) bearer), tm, sends + 1, posts)"
  by (subst client.simps) (simp split: http_result.splits)

lemma client_first:
  "client d remote server False sends posts bearer tm =
     (if authError (server (sends + 1) bearer) then
        (case silentRefreshToken_body d remote tm of
           (Inr newToken, tm1, n) \<Rightarrow>
             (passed (server (sends + 2) newToken), tm1, sends + 2, posts + n)
         | (Inl refreshError, tm1, n) \<Rightarrow>
             if message refreshError = ''REFRESH_TOKEN_EXPIRED''
             then (Inl (Error SESSION_EXPIRED), clearToken tm1, sends + 1, posts + n)
             else (Inl (Error ACCESS_TOKEN_EXPIRED), tm1, sends + 1, posts + n))
      else (passed (server (sends + 1) bearer), tm, sends + 1, posts))"
  by (subst client.simps)
     (auto simp: client_retry split: http_result.splits prod.splits sum.splits)

lemma body_posts_le: "silentRefreshToken_body d remote tm = (res, tm1, n) \<Longrightarrow> n \<le> 3"
proof -
  assume a: "silentRefreshToken_body d remote tm = (res, tm1, n)"
  from body_cases [OF a] show ?thesis
  proof (elim disjE exE conjE)
    fix td assume "refreshLoop d remote td 1 None (snd (loadToken tm)) 0 = (res, tm1, n)"
    from refreshLoop_cases [OF _ this] show ?thesis by (auto simp: maxRetries_def)
  qed simp
qed

lemma body_failure_store:
  assumes "silentRefreshToken_body d remote tm = (Inl e, tm1, n)"
  shows "tm1 = snd (loadToken tm)"
proof -
  from body_cases [OF assms] show ?thesis
  proof (elim disjE exE conjE)
    fix td assume "refreshLoop d remote td 1 None (snd (loadToken tm)) 0 = (Inl e, tm1, n)"
    from refreshLoop_cases [OF _ this] show ?thesis
      by (auto simp: maxRetries_def dest: refreshAttempt_Abort_store)
  qed simp
qed

lemma unauthorized_run:
  "client decodeNothing renews unauthorized False 0 0 ''b1'' loggedIn =
     (Inl (AxiosError (Some 401) ''Request failed with status code 401''),
      loggedIn\<lparr>tokenFile := Some (emptyObject\<lparr>token := Some ''b2'', refreshToken := Some ''r2''\<rparr>),
               cachedToken := Some (emptyObject\<lparr>token := Some ''b2'', refreshToken := Some ''r2''\<rparr>)\<rparr>,
      2, 1)"
  by code_simp

text \<open>
  C2, as the code has it. A request is sent at most twice and drives at most one renewal
  run. It is sent a second time only after a first reply of 401 or 403 and a renewal that
  succeeded, and what the second send gives, a second 401 or 403 included, is handed to
  the caller as it is. The two session errors come from a renewal that failed:
  \<^verbatim>\<open>Session Expired\<close>, with the store cleared, when the renewal failed as
  \<^verbatim>\<open>REFRESH_TOKEN_EXPIRED\<close>, and \<^verbatim>\<open>Access Token Expired\<close> otherwise. A first reply that is
  not 401 or 403 is handed on as it is.
\<close>

theorem executor_retries_once_and_passes_second_error:
  assumes "client decodeJWT remote server False 0 0 bearer tm = (res, tm', sends, posts)"
  shows "sends \<le> 2 \<and> posts \<le> 3
     \<and> (sends = 2 \<longrightarrow>
          authError (server 1 bearer) \<and>
          (\<exists>newToken n. silentRefreshToken_body decodeJWT remote tm = (Inr newToken, tm', n) \<and>
             res = passed (server 2 newToken)))
     \<and> (sends = 1 \<and> authError (server 1 bearer) \<longrightarrow>
          (\<exists>refreshError tm1 n. silentRefreshToken_body decodeJWT remote tm = (Inl refreshError, tm1, n) \<and>
             (if message refreshError = ''REFRESH_TOKEN_EXPIRED''
              then res = Inl (Error SESSION_EXPIRED) \<and> tm' = clearToken tm1
              else res = Inl (Error ACCESS_TOKEN_EXPIRED) \<and> tm' = tm1)))
     \<and> (\<not> authError (server 1 bearer) \<longrightarrow> sends = 1 \<and> res = passed (server 1 bearer) \<and> tm' = tm)"
proof (cases "authError (server 1 bearer)")
  case False
  with assms show ?thesis by (auto simp: client_first)
next
  case True
  obtain r tm1 n where body: "silentRefreshToken_body decodeJWT remote tm = (r, tm1, n)"
    by (cases "silentRefreshToken_body decodeJWT remote tm")
  from body_posts_le [OF body] have n: "n \<le> 3" .
  show ?thesis
  proof (cases r)
    case (Inr newToken)
    with assms True body n show ?thesis by (auto simp: client_first numeral_2_eq_2)
  next
    case (Inl refreshError)
    with assms True body n show ?thesis by (auto simp: client_first split: if_splits)
  qed
qed

theorem executor_retries_once_and_passes_second_error_witness:
  "fst (client decodeNothing renews unauthorized False 0 0 ''b1'' loggedIn) =
     passed (unauthorized 2 ''b2'')
   \<and> fst (snd (snd (client decodeNothing renews unauthorized False 0 0 ''b1'' loggedIn))) = 2"
  using executor_retries_once_and_passes_second_error [OF unauthorized_run] unauthorized_run
  by (simp add: unauthorized_def)

text \<open>
  C2, as the claim has it, fails: with a renewal that succeeds and a platform that answers
  401 to every send, the caller receives neither of the two session errors.
\<close>

theorem executor_second_401_counterexample:
  "fst (client decodeNothing renews unauthorized False 0 0 ''b1'' loggedIn) \<noteq> Inl (Error SESSION_EXPIRED)
   \<and> fst (client decodeNothing renews unauthorized False 0 0 ''b1'' loggedIn) \<noteq> Inl (Error ACCESS_TOKEN_EXPIRED)"
  by (simp add: unauthorized_run)

text \<open>
  C3, as the code has it. The store is cleared by the interceptor of the request that
  drove the renewal: when a request is answered 401 or 403, the renewal fails with
  \<^verbatim>\<open>REFRESH_TOKEN_EXPIRED\<close> and the token file can be written, the request fails with
  \<^verbatim>\<open>Session Expired\<close>, the cache is empty, the file holds the empty object, and the next
  \<open>requireToken\<close> fails with the not-authenticated error.
\<close>

theorem executor_clears_store_on_expired_renewal:
  assumes "authError (server 1 bearer)"
    and "fst (silentRefreshToken_body decodeJWT remote tm) = Inl (Error ''REFRESH_TOKEN_EXPIRED'')"
    and "writable tm"
  shows "\<exists>tm' posts.
           client decodeJWT remote server False 0 0 bearer tm = (Inl (Error SESSION_EXPIRED), tm', 1, posts) \<and>
           cachedToken tm' = None \<and> tokenFile tm' = Some emptyObject \<and>
           fst (requireToken tm') = Inl (Error NOT_AUTHENTICATED)"
proof -
  obtain tm1 n where body: "silentRefreshToken_body decodeJWT remote tm = (Inl (Error ''REFRESH_TOKEN_EXPIRED''), tm1, n)"
    using assms(2) by (cases "silentRefreshToken_body decodeJWT remote tm") auto
  from body_failure_store [OF body] have tm1: "tm1 = snd (loadToken tm)" .
  with assms(3) have w: "writable tm1"
    by (simp add: loadToken_def split: option.splits)
  let ?tm' = "clearToken tm1"
  from assms(1) body have run: "client decodeJWT remote server False 0 0 bearer tm =
      (Inl (Error SESSION_EXPIRED), ?tm', 1, n)"
    by (simp add: client_first)
  from w have c: "cachedToken ?tm' = None" and f: "tokenFile ?tm' = Some emptyObject"
    by (simp_all add: clearToken_def)
  from c f have "fst (requireToken ?tm') = Inl (Error NOT_AUTHENTICATED)"
    by (simp add: requireToken_def loadToken_def emptyObject_def)
  with run c f show ?thesis by blast
qed

theorem executor_clears_store_on_expired_renewal_witness:
  "fst (client decodeNothing forbidden unauthorized False 0 0 ''b1'' loggedIn) = Inl (Error SESSION_EXPIRED)
   \<and> fst (requireToken (fst (snd (client decodeNothing forbidden unauthorized False 0 0 ''b1'' loggedIn))))
       = Inl (Error NOT_AUTHENTICATED)"
proof -
  have h1: "authError (unauthorized 1 ''b1'')" by (simp add: unauthorized_def)
  have h2: "fst (silentRefreshToken_body decodeNothing forbidden loggedIn) = Inl (Error ''REFRESH_TOKEN_EXPIRED'')"
    by (simp add: forbidden_run)
  have h3: "writable loggedIn" by (simp add: loggedIn_def)
  from executor_clears_store_on_expired_renewal
    [where server = unauthorized and bearer = "''b1''" and decodeJWT = decodeNothing
       and remote = forbidden and tm = loggedIn, OF h1 h2 h3]
  show ?thesis by auto
qed

text \<open>
  C3, as the claim has it, fails: the renewal run itself, answered 403, fails with
  \<^verbatim>\<open>REFRESH_TOKEN_EXPIRED\<close> and leaves the store as it was; \<open>requireToken\<close> on that
  store still returns the old bearer credential.
\<close>

theorem renew_keeps_store_counterexample:
  "fst (silentRefreshToken_body decodeNothing forbidden loggedIn) = Inl (Error ''REFRESH_TOKEN_EXPIRED'')
   \<and> fst (requireToken (fst (snd (silentRefreshToken_body decodeNothing forbidden loggedIn)))) = Inr ''b1''"
  by code_simp

section \<open>Properties of concurrent renewal\<close>

lemma agrees_remoteOf: "agrees (remoteOf rs) rs"
  by (simp add: agrees_def remoteOf_def)

lemma agrees_snoc:
  assumes "agrees remote (rs @ [r])"
  shows "agrees remote rs" and "remote (length rs + 1) = r"
proof -
  show "agrees remote rs"
    unfolding agrees_def
  proof (intro allI impI)
    fix k assume k: "k < length rs"
    with assms have "remote (k + 1) = (rs @ [r]) ! k" by (simp add: agrees_def)
    with k show "remote (k + 1) = rs ! k" by (simp add: nth_append)
  qed
  from assms have "remote (length rs + 1) = (rs @ [r]) ! length rs" by (simp add: agrees_def)
  then show "remote (length rs + 1) = r" by simp
qed


lemma landing:
  assumes fl: "inFlight d rt0 m rt cs rs aw"
    and fin: "\<forall>remote. agrees remote rs' \<longrightarrow>
        silentRefreshToken_body d remote (managers rt0 m) = (out, tm1, length rs')"
    and posts: "posts_made rt = posts_made rt0 + length rs'"
  shows "landed d rt0 m (settle (promises_made rt0) out (setManager m tm1 rt)) cs rs'"
proof -
  from fl obtain ph where
    h: "refreshTokenPromise rt = Some (promises_made rt0)"
       "drivers rt = [(promises_made rt0, m, ph)]"
       "waiters rt = map (\<lambda>c. (c, promises_made rt0)) cs"
       "delivered rt = delivered rt0"
       "promises_made rt = promises_made rt0 + 1"
       "\<forall>m'. m' \<noteq> m \<longrightarrow> managers rt m' = managers rt0 m'"
    unfolding inFlight_def by blast
  from fin agrees_remoteOf [of rs']
  have b: "silentRefreshToken_body d (remoteOf rs') (managers rt0 m) = (out, tm1, length rs')" by blast
  from h b posts show ?thesis
    unfolding landed_def settle_def setManager_def by (simp add: comp_def)
qed

lemma continue_inFlight:
  assumes fl: "inFlight d rt0 m rt cs rs aw" and ok: "phaseOk ph'"
    and n: "n = posts_made rt0 + postsOf ph'" and len: "length rs' = taken ph'"
    and link: "\<forall>remote. agrees remote rs' \<longrightarrow>
        silentRefreshToken_body d remote (managers rt0 m) = rest_of_run d remote ph' tm1"
  shows "inFlight d rt0 m ((setDriver (promises_made rt0) ph' (setManager m tm1 rt))\<lparr>posts_made := n\<rparr>)
           cs rs' (awaitsReply ph')"
proof -
  from fl obtain ph where
    h: "refreshTokenPromise rt = Some (promises_made rt0)"
       "drivers rt = [(promises_made rt0, m, ph)]"
       "waiters rt = map (\<lambda>c. (c, promises_made rt0)) cs"
       "delivered rt = delivered rt0"
       "promises_made rt = promises_made rt0 + 1"
       "\<forall>m'. m' \<noteq> m \<longrightarrow> managers rt m' = managers rt0 m'"
    unfolding inFlight_def by blast
  show ?thesis
    unfolding inFlight_def
    by (rule exI [of _ ph']) (use h ok n len link in \<open>simp add: setDriver_def setManager_def\<close>)
qed

lemma loopHead_inFlight:
  assumes fl: "inFlight d rt0 m rt cs rs aw" and k: "1 \<le> k"
    and posts: "posts_made rt = posts_made rt0 + (k - 1)" and len: "length rs' = k - 1"
    and link: "\<forall>remote. agrees remote rs' \<longrightarrow>
        silentRefreshToken_body d remote (managers rt0 m) = refreshLoop d remote td k le tm1 (k - 1)"
  shows "inFlight d rt0 m (loopHead (promises_made rt0) k le td (setManager m tm1 rt)) cs rs' (k = 1)
     \<or> landed d rt0 m (loopHead (promises_made rt0) k le td (setManager m tm1 rt)) cs rs'"
proof (cases "k \<le> maxRetries")
  case False
  then have "refreshLoop d remote td k le tm1 (k - 1) =
      (Inl (case le of Some e \<Rightarrow> e | None \<Rightarrow> Error ''REFRESH_FAILED''), tm1, k - 1)" for remote
    by (subst refreshLoop.simps) simp
  with link len have "\<forall>remote. agrees remote rs' \<longrightarrow>
      silentRefreshToken_body d remote (managers rt0 m) =
        (Inl (case le of Some e \<Rightarrow> e | None \<Rightarrow> Error ''REFRESH_FAILED''), tm1, length rs')"
    by simp
  from landing [OF fl this] posts len False show ?thesis by (simp add: loopHead_def)
next
  case True
  show ?thesis
  proof (cases "k > 1")
    case True
    with \<open>k \<le> maxRetries\<close> have ok: "phaseOk (Sleeping k le td)" by simp
    have eq: "loopHead (promises_made rt0) k le td (setManager m tm1 rt) =
        (setDriver (promises_made rt0) (Sleeping k le td) (setManager m tm1 rt))\<lparr>posts_made := posts_made rt\<rparr>"
      using True \<open>k \<le> maxRetries\<close> by (simp add: loopHead_def setDriver_def setManager_def)
    from continue_inFlight [OF fl ok, of "posts_made rt" rs' tm1] posts len link True
    show ?thesis unfolding eq by simp
  next
    case False
    with k have k1: "k = 1" by simp
    with \<open>k \<le> maxRetries\<close> have ok: "phaseOk (Posting k le td)" by simp
    have eq: "loopHead (promises_made rt0) k le td (setManager m tm1 rt) =
        (setDriver (promises_made rt0) (Posting k le td) (setManager m tm1 rt))\<lparr>posts_made := posts_made rt + 1\<rparr>"
      using k1 \<open>k \<le> maxRetries\<close> by (simp add: loopHead_def post_def setDriver_def setManager_def)
    from continue_inFlight [OF fl ok, of "posts_made rt + 1" rs' tm1] posts len link k1
    show ?thesis unfolding eq by simp
  qed
qed


lemma step_inFlight:
  assumes fl: "inFlight d rt0 m rt cs rs aw"
  shows "inFlight d rt0 m (step d rt ev) (cs @ callers [ev])
           (rs @ answers (promises_made rt0) aw [ev]) (awaitingAfter (promises_made rt0) aw ev)
     \<or> (callers [ev] = [] \<and>
         landed d rt0 m (step d rt ev) cs (rs @ answers (promises_made rt0) aw [ev]))"
proof -
  let ?p = "promises_made rt0"
  from fl obtain ph where
    h: "refreshTokenPromise rt = Some ?p" "drivers rt = [(?p, m, ph)]"
       "posts_made rt = posts_made rt0 + postsOf ph" "phaseOk ph"
       "length rs = taken ph" "awaitsReply ph = aw"
    and link: "\<forall>remote. agrees remote rs \<longrightarrow>
        silentRefreshToken_body d remote (managers rt0 m) = rest_of_run d remote ph (managers rt m)"
    unfolding inFlight_def by blast
  have look: "map_of (drivers rt) q = (if q = ?p then Some (m, ph) else None)" for q
    using h(2) by simp
  have same: ?thesis if "step d rt ev = rt" "callers [ev] = []" "answers ?p aw [ev] = []"
    "awaitingAfter ?p aw ev = aw"
    using that fl by simp
  show ?thesis
  proof (cases ev)
    case (Renew c m')
    with h(1) have "step d rt ev = rt\<lparr>waiters := waiters rt @ [(c, ?p)]\<rparr>"
      by (simp add: step_def)
    with fl Renew show ?thesis unfolding inFlight_def by auto
  next
    case (Tick q)
    show ?thesis
    proof (cases "q = ?p")
      case False
      with Tick look show ?thesis by (intro same) (simp_all add: step_def)
    next
      case True
      show ?thesis
      proof (cases ph)
        case Loading
        with h(5,6) have rs: "rs = []" and aw: "aw = False" by simp_all
        obtain td' tm1 where ld: "loadToken (managers rt m) = (td', tm1)"
          by (cases "loadToken (managers rt m)")
        show ?thesis
        proof (cases "\<exists>td. td' = Some td \<and> truthy (refreshToken td)")
          case False
          with Tick True look Loading ld
          have st: "step d rt ev = settle ?p (Inl (Error ''REFRESH_TOKEN_MISSING'')) (setManager m tm1 rt)"
            by (cases td') (auto simp: step_def)
          from False ld have "silentRefreshToken_body d remote (managers rt m) =
              (Inl (Error ''REFRESH_TOKEN_MISSING''), tm1, 0)" for remote
            by (cases td') (auto simp: silentRefreshToken_body_def)
          with link Loading rs have "\<forall>remote. agrees remote [] \<longrightarrow>
              silentRefreshToken_body d remote (managers rt0 m) =
                (Inl (Error ''REFRESH_TOKEN_MISSING''), tm1, length ([]::post_result list))"
            by simp
          from landing [OF fl this] h(3) Loading st Tick rs show ?thesis by simp
        next
          case True
          then obtain td where td: "td' = Some td" "truthy (refreshToken td)" by blast
          with Tick \<open>q = ?p\<close> look Loading ld
          have st: "step d rt ev = loopHead ?p 1 None td (setManager m tm1 rt)"
            by (simp add: step_def)
          from td ld have "silentRefreshToken_body d remote (managers rt m) =
              refreshLoop d remote td 1 None tm1 (1 - 1)" for remote
            by (simp add: silentRefreshToken_body_def)
          with link Loading rs have lk: "\<forall>remote. agrees remote [] \<longrightarrow>
              silentRefreshToken_body d remote (managers rt0 m) =
                refreshLoop d remote td 1 None tm1 (1 - 1)"
            by simp
          from h(3) Loading have "posts_made rt = posts_made rt0 + (1 - 1)" by simp
          from loopHead_inFlight [OF fl _ this _ lk] st Tick rs \<open>q = ?p\<close> show ?thesis by simp
        qed
      next
        case (Sleeping a le td)
        with Tick True look have st: "step d rt ev = post ?p a le td rt" by (simp add: step_def)
        from Sleeping h(4) have ok: "phaseOk (Posting a le td)" by simp
        from Sleeping h(3,4) have n: "posts_made rt + 1 = posts_made rt0 + postsOf (Posting a le td)" by simp
        from Sleeping h(5) have len: "length rs = taken (Posting a le td)" by simp
        from link Sleeping have lk: "\<forall>remote. agrees remote rs \<longrightarrow>
            silentRefreshToken_body d remote (managers rt0 m) =
              rest_of_run d remote (Posting a le td) (managers rt m)"
          by simp
        have sm: "setManager m (managers rt m) rt = rt" by (simp add: setManager_def)
        from continue_inFlight [OF fl ok n len lk] sm st Tick True
        show ?thesis by (simp add: post_def)
      next
        case (Posting a le td)
        with Tick True look h(6) show ?thesis by (intro same) (auto simp: step_def)
      qed
    qed
  next
    case (Reply q r)
    show ?thesis
    proof (cases "q = ?p")
      case False
      with Reply look show ?thesis by (intro same) (simp_all add: step_def)
    next
      case True
      show ?thesis
      proof (cases ph)
        case Loading
        with Reply True look h(6) show ?thesis by (intro same) (auto simp: step_def)
      next
        case (Sleeping a le td)
        with Reply True look h(6) show ?thesis by (intro same) (auto simp: step_def)
      next
        case (Posting a le td)
        with h(4,5,6) have a: "1 \<le> a" "a \<le> maxRetries" and len: "length rs = a - 1" and aw: "aw"
          by simp_all
        from Reply True aw have ans: "answers ?p aw [ev] = [r]" by simp
        from a len have len': "length (rs @ [r]) = a" by simp
        obtain o1 tm1 where att: "refreshAttempt d td (managers rt m) r = (o1, tm1)"
          by (cases "refreshAttempt d td (managers rt m) r")
        have unfold: "silentRefreshToken_body d remote (managers rt0 m) =
            (case o1 of
               Done tok \<Rightarrow> (Inr tok, tm1, a)
             | Abort e \<Rightarrow> (Inl e, tm1, a)
             | Continue e \<Rightarrow> refreshLoop d remote td (a + 1) (Some e) tm1 a)"
          if ag: "agrees remote (rs @ [r])" for remote
        proof -
          from agrees_snoc [OF ag] len a have ag': "agrees remote rs" and ra: "remote a = r" by simp_all
          from link ag' Posting have "silentRefreshToken_body d remote (managers rt0 m) =
              refreshLoop d remote td a le (managers rt m) (a - 1)" by simp
          also have "\<dots> = (case o1 of
               Done tok \<Rightarrow> (Inr tok, tm1, a)
             | Abort e \<Rightarrow> (Inl e, tm1, a)
             | Continue e \<Rightarrow> refreshLoop d remote td (a + 1) (Some e) tm1 a)"
            using a att ra by (subst refreshLoop.simps) (simp split: attempt_outcome.splits)
          finally show ?thesis .
        qed
        from h(3) Posting have posts: "posts_made rt = posts_made rt0 + length (rs @ [r])"
          using len' by simp
        show ?thesis
        proof (cases o1)
          case (Done tok)
          with Reply True look Posting att
          have st: "step d rt ev = settle ?p (Inr tok) (setManager m tm1 rt)" by (simp add: step_def)
          from unfold Done len' have "\<forall>remote. agrees remote (rs @ [r]) \<longrightarrow>
              silentRefreshToken_body d remote (managers rt0 m) = (Inr tok, tm1, length (rs @ [r]))"
            by simp
          from landing [OF fl this posts] st Reply ans show ?thesis by simp
        next
          case (Abort e)
          with Reply True look Posting att
          have st: "step d rt ev = settle ?p (Inl e) (setManager m tm1 rt)" by (simp add: step_def)
          from unfold Abort len' have "\<forall>remote. agrees remote (rs @ [r]) \<longrightarrow>
              silentRefreshToken_body d remote (managers rt0 m) = (Inl e, tm1, length (rs @ [r]))"
            by simp
          from landing [OF fl this posts] st Reply ans show ?thesis by simp
        next
          case (Continue e)
          with Reply True look Posting att
          have st: "step d rt ev = loopHead ?p (a + 1) (Some e) td (setManager m tm1 rt)"
            by (simp add: step_def)
          from unfold Continue have lk: "\<forall>remote. agrees remote (rs @ [r]) \<longrightarrow>
              silentRefreshToken_body d remote (managers rt0 m) =
                refreshLoop d remote td (a + 1) (Some e) tm1 (a + 1 - 1)"
            by simp
          from h(3) Posting have p2: "posts_made rt = posts_made rt0 + (a + 1 - 1)" by simp
          from len' have l2: "length (rs @ [r]) = a + 1 - 1" by simp
          from loopHead_inFlight [OF fl _ p2 l2 lk] st Reply ans True aw a show ?thesis by simp
        qed
      qed
    qed
  qed
qed


lemma run_Cons: "run d rt (ev # evs) = run d (step d rt ev) evs"
  by (simp add: run_def)

lemma run_Nil: "run d rt [] = rt"
  by (simp add: run_def)



lemma step_idle_Renew:
  assumes "idle rt"
  shows "inFlight d rt m (step d rt (Renew c m)) [c] [] False"
proof -
  from assms have "step d rt (Renew c m) =
      rt\<lparr>refreshTokenPromise := Some (promises_made rt),
         drivers := [(promises_made rt, m, Loading)],
         waiters := [(c, promises_made rt)],
         promises_made := promises_made rt + 1\<rparr>"
    by (simp add: step_def idle_def)
  then show ?thesis
    unfolding inFlight_def by (intro exI [of _ Loading]) simp
qed

lemma step_idle_other:
  assumes "idle rt" and "callers [ev] = []"
  shows "step d rt ev = rt"
  using assms by (cases ev) (simp_all add: step_def idle_def)

lemma landed_idle:
  assumes "idle rt0" and "landed d rt0 m rt cs rs"
  shows "idle rt"
proof -
  from assms(1) have "list_all (\<lambda>x. fst (snd x) < promises_made rt0 + 1) (delivered rt0)"
    by (auto simp: idle_def list_all_iff)
  with assms(2) show ?thesis
    by (auto simp: idle_def landed_def list_all_iff)
qed

lemma wellFormed_step:
  assumes "wellFormed d rt"
  shows "wellFormed d (step d rt ev)"
proof -
  from assms consider (rest) "idle rt"
    | (flight) rt0 m cs rs aw where "idle rt0" "cs \<noteq> []" "inFlight d rt0 m rt cs rs aw"
    unfolding wellFormed_def by blast
  then show ?thesis
  proof cases
    case rest
    show ?thesis
    proof (cases ev)
      case (Renew c m)
      with step_idle_Renew [OF rest, of d m c] rest show ?thesis
        unfolding wellFormed_def by blast
    next
      case (Tick q)
      with step_idle_other [OF rest, of ev d] rest show ?thesis by (simp add: wellFormed_def)
    next
      case (Reply q r)
      with step_idle_other [OF rest, of ev d] rest show ?thesis by (simp add: wellFormed_def)
    qed
  next
    case flight
    from step_inFlight [OF flight(3), of ev] show ?thesis
    proof (elim disjE conjE)
      assume "inFlight d rt0 m (step d rt ev) (cs @ callers [ev])
        (rs @ answers (promises_made rt0) aw [ev]) (awaitingAfter (promises_made rt0) aw ev)"
      with flight(1,2) show ?thesis unfolding wellFormed_def by blast
    next
      assume "landed d rt0 m (step d rt ev) cs (rs @ answers (promises_made rt0) aw [ev])"
      from landed_idle [OF flight(1) this] show ?thesis by (simp add: wellFormed_def)
    qed
  qed
qed

lemma wellFormed_start: "wellFormed d (start tms)"
  by (simp add: wellFormed_def idle_def start_def)

lemma wellFormed_run: "wellFormed d rt \<Longrightarrow> wellFormed d (run d rt evs)"
  by (induction evs arbitrary: rt) (simp_all add: run_Nil run_Cons wellFormed_step)

lemma wellFormed_idle:
  "wellFormed d rt \<Longrightarrow> refreshTokenPromise rt = None \<Longrightarrow> idle rt"
  by (auto simp: wellFormed_def inFlight_def)









lemma settle_all:
  assumes "drivers rt = [(p, m, ph)]" and "waiters rt = map (\<lambda>c. (c, p)) cs"
  shows "refreshTokenPromise (settle p out (setManager m tm1 rt)) = None"
    and "drivers (settle p out (setManager m tm1 rt)) = []"
    and "waiters (settle p out (setManager m tm1 rt)) = []"
    and "delivered (settle p out (setManager m tm1 rt)) =
           delivered rt @ map (\<lambda>w. (fst w, p, out)) (waiters rt)"
  using assms by (simp_all add: settle_def setManager_def comp_def)

lemma wellFormed_driver:
  assumes "wellFormed d rt" and "map_of (drivers rt) p = Some (m, ph)"
  shows "\<exists>cs. drivers rt = [(p, m, ph)] \<and> waiters rt = map (\<lambda>c. (c, p)) cs"
proof -
  from assms(2) have ne: "drivers rt \<noteq> []" by auto
  from assms(1) consider (rest) "idle rt"
    | (flight) rt0 m' cs rs aw where "inFlight d rt0 m' rt cs rs aw"
    unfolding wellFormed_def by blast
  then show ?thesis
  proof cases
    case rest
    with ne show ?thesis by (simp add: idle_def)
  next
    case flight
    then obtain ph' where
      dw: "drivers rt = [(promises_made rt0, m', ph')]"
          "waiters rt = map (\<lambda>c. (c, promises_made rt0)) cs"
      unfolding inFlight_def by blast
    from assms(2) dw(1) have "p = promises_made rt0 \<and> m = m' \<and> ph = ph'"
      by (simp split: if_splits)
    with dw show ?thesis by blast
  qed
qed

lemma step_delivers_resets:
  assumes "wellFormed d rt" and "delivered (step d rt ev) \<noteq> delivered rt"
  shows "refreshTokenPromise (step d rt ev) = None"
proof -
  from assms(1) consider (rest) "idle rt"
    | (flight) rt0 m cs rs aw where "idle rt0" "cs \<noteq> []" "inFlight d rt0 m rt cs rs aw"
    unfolding wellFormed_def by blast
  then show ?thesis
  proof cases
    case rest
    show ?thesis
    proof (cases "callers [ev] = []")
      case True
      from step_idle_other [OF rest True, of d] assms(2) show ?thesis by simp
    next
      case False
      then obtain c m where "ev = Renew c m" by (cases ev) simp_all
      with step_idle_Renew [OF rest, of d m c] assms(2) show ?thesis by (simp add: inFlight_def)
    qed
  next
    case flight
    from step_inFlight [OF flight(3), of ev] show ?thesis
    proof (elim disjE conjE)
      assume "inFlight d rt0 m (step d rt ev) (cs @ callers [ev])
        (rs @ answers (promises_made rt0) aw [ev]) (awaitingAfter (promises_made rt0) aw ev)"
      with flight(3) assms(2) show ?thesis by (auto simp: inFlight_def)
    next
      assume "landed d rt0 m (step d rt ev) cs (rs @ answers (promises_made rt0) aw [ev])"
      then show ?thesis by (simp add: landed_def)
    qed
  qed
qed

lemma failedRenewal_run:
  "map_of (drivers (run decodeNothing (start allLoggedIn) firstPost)) 0 =
     Some (0, Posting 1 None (emptyObject\<lparr>token := Some ''b1'', refreshToken := Some ''r1''\<rparr>))"
  "waiters (run decodeNothing (start allLoggedIn) firstPost) = [(1, 0)]"
  "delivered (run decodeNothing (start allLoggedIn) firstPost) = []"
  "fst (refreshAttempt decodeNothing (emptyObject\<lparr>token := Some ''b1'', refreshToken := Some ''r1''\<rparr>)
     (managers (run decodeNothing (start allLoggedIn) firstPost) 0) (forbidden 1)) =
     Abort (Error ''REFRESH_TOKEN_EXPIRED'')"
  "refreshTokenPromise (run decodeNothing (start allLoggedIn) failedRenewal) = None"
  "promises_made (run decodeNothing (start allLoggedIn) failedRenewal) = 1"
  by code_simp+

text \<open>
  C10. In every module reached from its start: at most one driver exists; the variable
  \<^verbatim>\<open>refreshTokenPromise\<close> is null exactly when no driver exists; no outcome handed out
  belongs to the promise the variable holds; a step that hands out outcomes leaves the
  variable null. A renewal that ends, however it ends, resets the variable in the step in
  which its outcome goes to the callers awaiting it: the reply whose turn returns the new
  credential, throws out of the loop or was the last attempt allowed leaves the variable
  null, no driver and nobody waiting, and so does the load that finds no renewal
  credential. A call made while the variable is null creates a new promise and a new
  driver, at the start of its run, for a promise no outcome handed out so far belongs to.
\<close>

theorem handle_reset_and_fresh_start:
  assumes "rt = run decodeJWT (start tms) evs"
  shows "length (drivers rt) \<le> 1
     \<and> (refreshTokenPromise rt = None) = (drivers rt = [])
     \<and> list_all (\<lambda>x. refreshTokenPromise rt \<noteq> Some (fst (snd x))) (delivered rt)
     \<and> (delivered (step decodeJWT rt ev) \<noteq> delivered rt \<longrightarrow>
          refreshTokenPromise (step decodeJWT rt ev) = None)
     \<and> (map_of (drivers rt) p = Some (m, Posting a le td) \<and>
        \<not> (continues (fst (refreshAttempt decodeJWT td (managers rt m) r)) \<and> a < maxRetries) \<longrightarrow>
          refreshTokenPromise (step decodeJWT rt (Reply p r)) = None \<and>
          drivers (step decodeJWT rt (Reply p r)) = [] \<and>
          waiters (step decodeJWT rt (Reply p r)) = [] \<and>
          delivered (step decodeJWT rt (Reply p r)) =
            delivered rt @
            map (\<lambda>w. (fst w, p, ended (fst (refreshAttempt decodeJWT td (managers rt m) r)))) (waiters rt))
     \<and> (map_of (drivers rt) p = Some (m, Loading) \<and>
        \<not> (\<exists>tokenData. fst (loadToken (managers rt m)) = Some tokenData \<and> truthy (refreshToken tokenData)) \<longrightarrow>
          refreshTokenPromise (step decodeJWT rt (Tick p)) = None \<and>
          drivers (step decodeJWT rt (Tick p)) = [] \<and>
          waiters (step decodeJWT rt (Tick p)) = [] \<and>
          delivered (step decodeJWT rt (Tick p)) =
            delivered rt @ map (\<lambda>w. (fst w, p, Inl (Error ''REFRESH_TOKEN_MISSING''))) (waiters rt))
     \<and> (refreshTokenPromise rt = None \<longrightarrow>
          refreshTokenPromise (step decodeJWT rt (Renew c m)) = Some (promises_made rt) \<and>
          drivers (step decodeJWT rt (Renew c m)) = [(promises_made rt, m, Loading)] \<and>
          waiters (step decodeJWT rt (Renew c m)) = [(c, promises_made rt)] \<and>
          list_all (\<lambda>x. fst (snd x) \<noteq> promises_made rt) (delivered rt))"
proof -
  from assms have wf: "wellFormed decodeJWT rt" by (simp add: wellFormed_run wellFormed_start)
  have a: "length (drivers rt) \<le> 1" "(refreshTokenPromise rt = None) = (drivers rt = [])"
    using wf by (auto simp: wellFormed_def idle_def inFlight_def)
  have b: "list_all (\<lambda>x. refreshTokenPromise rt \<noteq> Some (fst (snd x))) (delivered rt)"
    using wf by (fastforce simp: wellFormed_def idle_def inFlight_def list_all_iff)
  have c: "refreshTokenPromise (step decodeJWT rt ev) = None"
    if "delivered (step decodeJWT rt ev) \<noteq> delivered rt"
    using step_delivers_resets [OF wf that] .
  have r: "refreshTokenPromise (step decodeJWT rt (Reply p r)) = None \<and>
          drivers (step decodeJWT rt (Reply p r)) = [] \<and>
          waiters (step decodeJWT rt (Reply p r)) = [] \<and>
          delivered (step decodeJWT rt (Reply p r)) =
            delivered rt @
            map (\<lambda>w. (fst w, p, ended (fst (refreshAttempt decodeJWT td (managers rt m) r)))) (waiters rt)"
    if look: "map_of (drivers rt) p = Some (m, Posting a le td)"
      and last: "\<not> (continues (fst (refreshAttempt decodeJWT td (managers rt m) r)) \<and> a < maxRetries)"
  proof -
    from wellFormed_driver [OF wf look] obtain cs where
      dw: "drivers rt = [(p, m, Posting a le td)]" "waiters rt = map (\<lambda>c. (c, p)) cs" by blast
    obtain o1 tm1 where att: "refreshAttempt decodeJWT td (managers rt m) r = (o1, tm1)"
      by (cases "refreshAttempt decodeJWT td (managers rt m) r")
    have "step decodeJWT rt (Reply p r) = settle p (ended o1) (setManager m tm1 rt)"
    proof (cases o1)
      case (Done tok)
      with look att show ?thesis by (simp add: step_def)
    next
      case (Abort e)
      with look att show ?thesis by (simp add: step_def)
    next
      case (Continue e)
      with last att have "\<not> a + 1 \<le> maxRetries" by simp
      with look att Continue show ?thesis by (simp add: step_def loopHead_def)
    qed
    with settle_all [OF dw, of "ended o1" tm1] att show ?thesis by simp
  qed
  have t: "refreshTokenPromise (step decodeJWT rt (Tick p)) = None \<and>
          drivers (step decodeJWT rt (Tick p)) = [] \<and>
          waiters (step decodeJWT rt (Tick p)) = [] \<and>
          delivered (step decodeJWT rt (Tick p)) =
            delivered rt @ map (\<lambda>w. (fst w, p, Inl (Error ''REFRESH_TOKEN_MISSING''))) (waiters rt)"
    if look: "map_of (drivers rt) p = Some (m, Loading)"
      and none: "\<not> (\<exists>tokenData. fst (loadToken (managers rt m)) = Some tokenData \<and> truthy (refreshToken tokenData))"
  proof -
    from wellFormed_driver [OF wf look] obtain cs where
      dw: "drivers rt = [(p, m, Loading)]" "waiters rt = map (\<lambda>c. (c, p)) cs" by blast
    obtain td' tm1 where ld: "loadToken (managers rt m) = (td', tm1)"
      by (cases "loadToken (managers rt m)")
    with look none have "step decodeJWT rt (Tick p) =
        settle p (Inl (Error ''REFRESH_TOKEN_MISSING'')) (setManager m tm1 rt)"
      by (cases td') (auto simp: step_def)
    with settle_all [OF dw, of "Inl (Error ''REFRESH_TOKEN_MISSING'')" tm1] show ?thesis by simp
  qed
  have d: "refreshTokenPromise (step decodeJWT rt (Renew c m)) = Some (promises_made rt) \<and>
          drivers (step decodeJWT rt (Renew c m)) = [(promises_made rt, m, Loading)] \<and>
          waiters (step decodeJWT rt (Renew c m)) = [(c, promises_made rt)] \<and>
          list_all (\<lambda>x. fst (snd x) \<noteq> promises_made rt) (delivered rt)"
    if "refreshTokenPromise rt = None"
  proof -
    from wf that have i: "idle rt" by (rule wellFormed_idle)
    then have "list_all (\<lambda>x. fst (snd x) \<noteq> promises_made rt) (delivered rt)"
      by (auto simp: idle_def list_all_iff)
    moreover from i have "step decodeJWT rt (Renew c m) =
      rt\<lparr>refreshTokenPromise := Some (promises_made rt),
         drivers := [(promises_made rt, m, Loading)],
         waiters := [(c, promises_made rt)],
         promises_made := promises_made rt + 1\<rparr>"
      by (simp add: step_def idle_def)
    ultimately show ?thesis by simp
  qed
  from a b c r t d show ?thesis by blast
qed

theorem handle_reset_and_fresh_start_witness:
  "refreshTokenPromise (step decodeNothing (run decodeNothing (start allLoggedIn) firstPost)
      (Reply 0 (forbidden 1))) = None
   \<and> delivered (step decodeNothing (run decodeNothing (start allLoggedIn) firstPost)
      (Reply 0 (forbidden 1))) = [(1, 0, Inl (Error ''REFRESH_TOKEN_EXPIRED''))]
   \<and> drivers (step decodeNothing (run decodeNothing (start allLoggedIn) failedRenewal) (Renew 2 0))
      = [(1, 0, Loading)]
   \<and> waiters (step decodeNothing (run decodeNothing (start allLoggedIn) failedRenewal) (Renew 2 0))
      = [(2, 1)]"
proof -
  from handle_reset_and_fresh_start [OF refl, where decodeJWT = decodeNothing and tms = allLoggedIn
      and evs = firstPost and p = 0 and m = 0 and a = 1 and le = None and r = "forbidden 1"
      and td = "emptyObject\<lparr>token := Some ''b1'', refreshToken := Some ''r1''\<rparr>"]
    failedRenewal_run(1,2,3,4)
  have first: "refreshTokenPromise (step decodeNothing (run decodeNothing (start allLoggedIn) firstPost)
      (Reply 0 (forbidden 1))) = None
   \<and> delivered (step decodeNothing (run decodeNothing (start allLoggedIn) firstPost)
      (Reply 0 (forbidden 1))) = [(1, 0, Inl (Error ''REFRESH_TOKEN_EXPIRED''))]"
    by simp
  from handle_reset_and_fresh_start [OF refl, where decodeJWT = decodeNothing and tms = allLoggedIn
      and evs = failedRenewal and c = 2 and m = 0]
    failedRenewal_run(5,6)
  have second: "drivers (step decodeNothing (run decodeNothing (start allLoggedIn) failedRenewal) (Renew 2 0))
      = [(1, 0, Loading)]
   \<and> waiters (step decodeNothing (run decodeNothing (start allLoggedIn) failedRenewal) (Renew 2 0))
      = [(2, 1)]"
    by simp
  from first second show ?thesis by simp
qed

text \<open>
  The promise is shared across managers: a caller with manager 1 who arrives while the
  renewal for manager 0 is in flight receives the bearer credential renewed for manager 0,
  and the store of manager 1 is left as it was.
\<close>

lemma shared_across_managers:
  "delivered (run decodeNothing (start allLoggedIn) twoManagers) = [(1, 0, Inr ''b2''), (2, 0, Inr ''b2'')]"
  "map_option token (cachedToken (managers (run decodeNothing (start allLoggedIn) twoManagers) 0)) =
     Some (Some ''b2'')"
  "map_option token (cachedToken (managers (run decodeNothing (start allLoggedIn) twoManagers) 1)) =
     Some (Some ''b1'')"
  "posts_made (run decodeNothing (start allLoggedIn) twoManagers) = 1"
  by code_simp+

section \<open>Properties of the polling loops\<close>

lemma pollPaymentLoop_pollLoop:
  "pollPaymentLoop probeAt m a p = pollLoop (\<lambda>k. paymentTurn (probeAt k)) PAYMENT_TIMEOUT m a p"
proof (induction probeAt m a p rule: pollPaymentLoop.induct)
  case (1 probeAt m a p)
  then show ?case
    by (subst pollPaymentLoop.simps, subst pollLoop.simps)
       (auto split: turn.splits)
qed

lemma pollMandateLoop_pollLoop:
  "pollMandateLoop probeAt m a p = pollLoop (\<lambda>k. mandateTurn (probeAt k)) MANDATE_TIMEOUT m a p"
proof (induction probeAt m a p rule: pollMandateLoop.induct)
  case (1 probeAt m a p)
  then show ?case
    by (subst pollMandateLoop.simps, subst pollLoop.simps)
       (auto split: turn.splits)
qed

lemma pollLoop_first_return:
  "a \<le> m + 1 \<Longrightarrow> pollLoop turnAt timeout m a p = (res, n) \<Longrightarrow>
     (\<exists>k. a \<le> k \<and> k \<le> m \<and> turnAt (k) = Return res \<and> n + a = p + k + 1 \<and>
          (\<forall>j. a \<le> j \<and> j < k \<longrightarrow> \<not> returns (turnAt (j))))
     \<or> (res = timeout \<and> n + a = p + m + 1 \<and>
          (\<forall>j. a \<le> j \<and> j \<le> m \<longrightarrow> \<not> returns (turnAt (j))))"
proof (induction turnAt timeout m a p rule: pollLoop.induct)
  case (1 turnAt timeout m a p)
  show ?case
  proof (cases "a \<le> m")
    case False
    then have "pollLoop turnAt timeout m a p = (timeout, p)"
      by (simp add: pollLoop.simps [of turnAt timeout m a p])
    with "1.prems" have "res = timeout" "n = p" by simp_all
    moreover from False "1.prems" have "a = m + 1" by simp
    ultimately show ?thesis by auto
  next
    case True
    have next_turn: ?thesis
      if run: "pollLoop turnAt timeout m (a + 1) (p + 1) = (res, n)"
      and ih: "a + 1 \<le> m + 1 \<Longrightarrow> pollLoop turnAt timeout m (a + 1) (p + 1) = (res, n) \<Longrightarrow>
        (\<exists>k. a + 1 \<le> k \<and> k \<le> m \<and> turnAt (k) = Return res \<and> n + (a + 1) = p + 1 + k + 1 \<and>
          (\<forall>j. a + 1 \<le> j \<and> j < k \<longrightarrow> \<not> returns (turnAt (j))))
        \<or> (res = timeout \<and> n + (a + 1) = p + 1 + m + 1 \<and>
          (\<forall>j. a + 1 \<le> j \<and> j \<le> m \<longrightarrow> \<not> returns (turnAt (j))))"
      and here: "\<not> returns (turnAt (a))"
    proof -
      from ih [OF _ run] True consider
        (found) k where "a + 1 \<le> k" "k \<le> m" "turnAt (k) = Return res" "n + (a + 1) = p + 1 + k + 1"
          "\<forall>j. a + 1 \<le> j \<and> j < k \<longrightarrow> \<not> returns (turnAt (j))"
      | (timed_out) "res = timeout" "n + (a + 1) = p + 1 + m + 1"
          "\<forall>j. a + 1 \<le> j \<and> j \<le> m \<longrightarrow> \<not> returns (turnAt (j))"
        by auto
      then show ?thesis
      proof cases
        case found
        have "\<forall>j. a \<le> j \<and> j < k \<longrightarrow> \<not> returns (turnAt (j))"
        proof (intro allI impI)
          fix j assume "a \<le> j \<and> j < k"
          then have "j = a \<or> (a + 1 \<le> j \<and> j < k)" by arith
          with here found(5) show "\<not> returns (turnAt (j))" by blast
        qed
        moreover from found have "a \<le> k" "n + a = p + k + 1" by simp_all
        ultimately show ?thesis using found(2,3) by blast
      next
        case timed_out
        have "\<forall>j. a \<le> j \<and> j \<le> m \<longrightarrow> \<not> returns (turnAt (j))"
        proof (intro allI impI)
          fix j assume "a \<le> j \<and> j \<le> m"
          then have "j = a \<or> (a + 1 \<le> j \<and> j \<le> m)" by arith
          with here timed_out(3) show "\<not> returns (turnAt (j))" by blast
        qed
        moreover from timed_out have "n + a = p + m + 1" by simp
        ultimately show ?thesis using timed_out(1) by blast
      qed
    qed
    show ?thesis
    proof (cases "turnAt (a)")
      case (Return x)
      with True "1.prems" have "x = res" "n = p + 1" by (simp_all add: pollLoop.simps [of turnAt timeout m a p])
      with Return True have "a \<le> a \<and> a \<le> m \<and> turnAt (a) = Return res \<and> n + a = p + a + 1 \<and>
          (\<forall>j. a \<le> j \<and> j < a \<longrightarrow> \<not> returns (turnAt (j)))" by auto
      then show ?thesis by blast
    next
      case Pending
      with True "1.prems" have run: "pollLoop turnAt timeout m (a + 1) (p + 1) = (res, n)"
        by (simp add: pollLoop.simps [of turnAt timeout m a p])
      from Pending have "\<not> returns (turnAt (a))" by simp
      with run "1.IH"(1) [OF True Pending] show ?thesis by (rule next_turn)
    next
      case (Swallowed e)
      with True "1.prems" have run: "pollLoop turnAt timeout m (a + 1) (p + 1) = (res, n)"
        by (simp add: pollLoop.simps [of turnAt timeout m a p])
      from Swallowed have "\<not> returns (turnAt (a))" by simp
      with run "1.IH"(2) [OF True Swallowed] show ?thesis by (rule next_turn)
    qed
  qed
qed


lemma pollLoop_cases:
  assumes "pollLoop turnAt timeout m 1 0 = (res, n)"
  shows "(1 \<le> n \<and> n \<le> m \<and> turnAt n = Return res \<and> (\<forall>j. 1 \<le> j \<and> j < n \<longrightarrow> \<not> returns (turnAt j)))
     \<or> (res = timeout \<and> n = m \<and> (\<forall>j. 1 \<le> j \<and> j \<le> m \<longrightarrow> \<not> returns (turnAt j)))"
  using pollLoop_first_return [OF _ assms] by auto

lemma pollLoop_all_pending:
  assumes "\<forall>j. 1 \<le> j \<and> j \<le> m \<longrightarrow> \<not> returns (turnAt j)"
  shows "pollLoop turnAt timeout m 1 0 = (timeout, m)"
proof -
  obtain res n where r: "pollLoop turnAt timeout m 1 0 = (res, n)" by (cases "pollLoop turnAt timeout m 1 0")
  from pollLoop_cases [OF r] assms have "res = timeout \<and> n = m"
    by (metis returns.simps(1))
  with r show ?thesis by simp
qed

lemma pollLoop_first:
  assumes "1 \<le> k" "k \<le> m" "turnAt k = Return res"
    and "\<forall>j. 1 \<le> j \<and> j < k \<longrightarrow> \<not> returns (turnAt j)"
  shows "pollLoop turnAt timeout m 1 0 = (res, k)"
proof -
  obtain res' n where r: "pollLoop turnAt timeout m 1 0 = (res', n)" by (cases "pollLoop turnAt timeout m 1 0")
  from assms(3) have ret: "returns (turnAt k)" by simp
  from pollLoop_cases [OF r] consider
    (found) "1 \<le> n" "n \<le> m" "turnAt n = Return res'" "\<forall>j. 1 \<le> j \<and> j < n \<longrightarrow> \<not> returns (turnAt j)"
  | (timed_out) "\<forall>j. 1 \<le> j \<and> j \<le> m \<longrightarrow> \<not> returns (turnAt j)"
    by blast
  then show ?thesis
  proof cases
    case found
    from found(3) have "returns (turnAt n)" by simp
    with assms(4) found(1) have "\<not> n < k" by blast
    moreover from ret found(4) assms(1) have "\<not> k < n" by blast
    ultimately have "n = k" by simp
    with found(3) assms(3) r show ?thesis by simp
  next
    case timed_out
    with ret assms(1,2) show ?thesis by blast
  qed
qed

lemma paymentTurn_Return:
  "paymentTurn r = Return res \<Longrightarrow>
     (success res \<and> status res = ''APPROVED'') \<or> (\<not> success res \<and> status res = ''REJECTED'')"
  by (auto simp: paymentTurn_def split: probe.splits option.splits if_splits)

lemma mandateTurn_Return:
  assumes "mandateTurn r = Return res"
  shows "(success res \<and> (status res = ''RECEIVED BY EXCHANGE'' \<or> status res = ''APPROVED''
            \<or> status res = ''UNDER PROCESSING''))
     \<or> (\<not> success res \<and> (status res = ''FAILED'' \<or> status res = ''REJECTED''))"
proof (cases r)
  case (ProbeThrows e)
  with assms show ?thesis by (simp add: mandateTurn_def)
next
  case (ProbeOk body)
  define inner where "inner = (case body of None \<Rightarrow> None | Some b \<Rightarrow> top_data b)"
  define md where "md =
     (case first (case body of None \<Rightarrow> None | Some b \<Rightarrow> top_MandateDetails b) of
        Some d \<Rightarrow> Some d
      | None \<Rightarrow> first (case inner of None \<Rightarrow> None | Some i \<Rightarrow> in_MandateDetails i))"
  define ms where "ms = js_or (case md of None \<Rightarrow> None | Some d \<Rightarrow> md_status d)
                       (case inner of None \<Rightarrow> None | Some i \<Rightarrow> in_mandateStatus i)"
  have turn: "mandateTurn r =
     (case ms of
        None \<Rightarrow> Pending
      | Some st \<Rightarrow>
          if st = ''RECEIVED BY EXCHANGE'' \<or> st = ''APPROVED'' \<or> st = ''UNDER PROCESSING''
          then (case mandatePayload md body of
                  Inl e \<Rightarrow> Swallowed e
                | Inr pl \<Rightarrow> Return \<lparr>success = True, status = st, data = pl\<rparr>)
          else if st = ''FAILED'' \<or> st = ''REJECTED''
          then (case mandatePayload md body of
                  Inl e \<Rightarrow> Swallowed e
                | Inr pl \<Rightarrow> Return \<lparr>success = False, status = st, data = pl\<rparr>)
          else Pending)"
    unfolding ProbeOk mandateTurn_def Let_def ms_def md_def inner_def by simp
  show ?thesis
  proof (cases ms)
    case None
    with turn assms show ?thesis by simp
  next
    case (Some st)
    show ?thesis
    proof (cases "st = ''RECEIVED BY EXCHANGE'' \<or> st = ''APPROVED'' \<or> st = ''UNDER PROCESSING''")
      case True
      with turn Some assms obtain pl where "res = \<lparr>success = True, status = st, data = pl\<rparr>"
        by (cases "mandatePayload md body") (simp_all del: One_nat_def)
      with True show ?thesis by simp
    next
      case False
      note notSucc = this
      show ?thesis
      proof (cases "st = ''FAILED'' \<or> st = ''REJECTED''")
        case True
        with turn Some assms notSucc obtain pl where "res = \<lparr>success = False, status = st, data = pl\<rparr>"
          by (cases "mandatePayload md body") (simp_all del: One_nat_def)
        with True show ?thesis by simp
      next
        case False
        with turn Some assms notSucc show ?thesis by simp
      qed
    qed
  qed
qed

lemma mandateNEW_pending: "mandateTurn mandateNEW = Pending"
  by (simp add: mandateNEW_def mandateTurn_def first_def js_or_def truthy_def)

text \<open>
  C4. Polling never throws: both polling functions are total, make at most \<open>maxAttempts\<close>
  probes, and return a success (\<^verbatim>\<open>success\<close> set, status of the success vocabulary), a
  failure (\<^verbatim>\<open>success\<close> unset, status of the failure vocabulary) or the timeout value,
  the last after exactly \<open>maxAttempts\<close> probes. A probe that throws ends its turn in the
  \<^verbatim>\<open>catch\<close> block and uses up that turn. When no turn returns (every probe pending or
  throwing), the result is the timeout value after exactly \<open>maxAttempts\<close> probes.
\<close>

theorem poll_returns_one_of_three_outcomes:
  "(case pollPaymentStatus probeAt maxAttempts of
      (res, n) \<Rightarrow>
        n \<le> maxAttempts \<and>
        ((success res \<and> status res = ''APPROVED'')
         \<or> (\<not> success res \<and> status res = ''REJECTED'')
         \<or> (res = PAYMENT_TIMEOUT \<and> n = maxAttempts)))
   \<and> (case pollMandateStatus mandateAt maxAttempts of
      (res, n) \<Rightarrow>
        n \<le> maxAttempts \<and>
        ((success res \<and> (status res = ''RECEIVED BY EXCHANGE'' \<or> status res = ''APPROVED''
            \<or> status res = ''UNDER PROCESSING''))
         \<or> (\<not> success res \<and> (status res = ''FAILED'' \<or> status res = ''REJECTED''))
         \<or> (res = MANDATE_TIMEOUT \<and> n = maxAttempts)))
   \<and> paymentTurn (ProbeThrows e) = Swallowed e
   \<and> mandateTurn (ProbeThrows e) = Swallowed e
   \<and> ((\<forall>k. 1 \<le> k \<and> k \<le> maxAttempts \<longrightarrow> \<not> returns (paymentTurn (probeAt k)))
        \<longrightarrow> pollPaymentStatus probeAt maxAttempts = (PAYMENT_TIMEOUT, maxAttempts))
   \<and> ((\<forall>k. 1 \<le> k \<and> k \<le> maxAttempts \<longrightarrow> \<not> returns (mandateTurn (mandateAt k)))
        \<longrightarrow> pollMandateStatus mandateAt maxAttempts = (MANDATE_TIMEOUT, maxAttempts))"
proof (intro conjI)
  show "case pollPaymentStatus probeAt maxAttempts of
      (res, n) \<Rightarrow>
        n \<le> maxAttempts \<and>
        ((success res \<and> status res = ''APPROVED'')
         \<or> (\<not> success res \<and> status res = ''REJECTED'')
         \<or> (res = PAYMENT_TIMEOUT \<and> n = maxAttempts))"
  proof (cases "pollPaymentStatus probeAt maxAttempts")
    case (Pair res n)
    then have "pollLoop (\<lambda>k. paymentTurn (probeAt k)) PAYMENT_TIMEOUT maxAttempts 1 0 = (res, n)"
      by (simp add: pollPaymentStatus_def pollPaymentLoop_pollLoop)
    from pollLoop_cases [OF this] paymentTurn_Return [of "probeAt n" res] Pair
    show ?thesis by auto
  qed
next
  show "case pollMandateStatus mandateAt maxAttempts of
      (res, n) \<Rightarrow>
        n \<le> maxAttempts \<and>
        ((success res \<and> (status res = ''RECEIVED BY EXCHANGE'' \<or> status res = ''APPROVED''
            \<or> status res = ''UNDER PROCESSING''))
         \<or> (\<not> success res \<and> (status res = ''FAILED'' \<or> status res = ''REJECTED''))
         \<or> (res = MANDATE_TIMEOUT \<and> n = maxAttempts))"
  proof (cases "pollMandateStatus mandateAt maxAttempts")
    case (Pair res n)
    then have "pollLoop (\<lambda>k. mandateTurn (mandateAt k)) MANDATE_TIMEOUT maxAttempts 1 0 = (res, n)"
      by (simp add: pollMandateStatus_def pollMandateLoop_pollLoop)
    from pollLoop_cases [OF this] mandateTurn_Return [of "mandateAt n" res] Pair
    show ?thesis by auto
  qed
next
  show "paymentTurn (ProbeThrows e) = Swallowed e" by (simp add: paymentTurn_def)
next
  show "mandateTurn (ProbeThrows e) = Swallowed e" by (simp add: mandateTurn_def)
next
  show "(\<forall>k. 1 \<le> k \<and> k \<le> maxAttempts \<longrightarrow> \<not> returns (paymentTurn (probeAt k)))
        \<longrightarrow> pollPaymentStatus probeAt maxAttempts = (PAYMENT_TIMEOUT, maxAttempts)"
    using pollLoop_all_pending [of maxAttempts "\<lambda>k. paymentTurn (probeAt k)" PAYMENT_TIMEOUT]
    by (simp add: pollPaymentStatus_def pollPaymentLoop_pollLoop)
next
  show "(\<forall>k. 1 \<le> k \<and> k \<le> maxAttempts \<longrightarrow> \<not> returns (mandateTurn (mandateAt k)))
        \<longrightarrow> pollMandateStatus mandateAt maxAttempts = (MANDATE_TIMEOUT, maxAttempts)"
    using pollLoop_all_pending [of maxAttempts "\<lambda>k. mandateTurn (mandateAt k)" MANDATE_TIMEOUT]
    by (simp add: pollMandateStatus_def pollMandateLoop_pollLoop)
qed

theorem poll_returns_one_of_three_outcomes_witness:
  "pollMandateStatus (\<lambda>k. mandateNEW) 3 = (MANDATE_TIMEOUT, 3)
   \<and> pollPaymentStatus (\<lambda>k. ProbeThrows (AxiosError None ''Network Error'')) 3 = (PAYMENT_TIMEOUT, 3)"
  using poll_returns_one_of_three_outcomes
    [where probeAt = "\<lambda>k. ProbeThrows (AxiosError None ''Network Error'')" and maxAttempts = 3
       and mandateAt = "\<lambda>k. mandateNEW"]
  by (simp add: mandateNEW_pending paymentTurn_def)

text \<open>
  C7. Payment confirmation: when the \<open>k\<close>-th probe, \<open>k\<close> within \<open>maxAttempts\<close>, is
  the first whose turn returns, and its reply has status \<^verbatim>\<open>SUCCESS\<close> and data containing
  \<^verbatim>\<open>100|\<close>, polling returns success with that data after exactly \<open>k\<close> probes. For
  pending, pending, approved and \<open>maxAttempts = 5\<close> that is 3 probes.
\<close>

theorem payment_poll_stops_at_first_approval:
  assumes "1 \<le> k" and "k \<le> maxAttempts"
    and "probeAt k = ProbeOk (Some d)"
    and "pay_status d = Some ''SUCCESS''" and "optIncludes (pay_data d) ''100|''"
    and "\<forall>j. 1 \<le> j \<and> j < k \<longrightarrow> \<not> returns (paymentTurn (probeAt j))"
  shows "pollPaymentStatus probeAt maxAttempts =
           (\<lparr>success = True, status = ''APPROVED'', data = pay_data d\<rparr>, k)"
proof -
  from assms(3,4,5) have "paymentTurn (probeAt k) =
      Return \<lparr>success = True, status = ''APPROVED'', data = pay_data d\<rparr>"
    by (simp add: paymentTurn_def)
  from pollLoop_first [of k maxAttempts "\<lambda>k. paymentTurn (probeAt k)", OF assms(1,2) this assms(6)]
  show ?thesis by (simp add: pollPaymentStatus_def pollPaymentLoop_pollLoop)
qed

theorem payment_poll_stops_at_first_approval_witness:
  "pollPaymentStatus scenarioC 5 =
     (\<lparr>success = True, status = ''APPROVED'', data = Some ''100|approved''\<rparr>, 3)"
proof -
  have pend: "\<forall>j. 1 \<le> j \<and> j < 3 \<longrightarrow> \<not> returns (paymentTurn (scenarioC j))"
    by (simp add: scenarioC_def paymentTurn_def optIncludes_def)
  have inc: "optIncludes (pay_data \<lparr>pay_status = Some ''SUCCESS'', pay_data = Some ''100|approved''\<rparr>) ''100|''"
    by (simp add: optIncludes_def)
  from payment_poll_stops_at_first_approval [of 3 5 scenarioC
      "\<lparr>pay_status = Some ''SUCCESS'', pay_data = Some ''100|approved''\<rparr>", OF _ _ _ _ inc pend]
  show ?thesis by (simp add: scenarioC_def)
qed

end
